theory Spec2Isabelle
  imports Main "HOL-Library.AList" "HOL-Library.Code_Target_Nat"
begin

section \<open>JavaScript values, objects and promises\<close>

text \<open>
  The storage layer (\<^verbatim>\<open>src/db.ts\<close>) and the optimistic hook
  (\<^verbatim>\<open>src/hooks/useOptimisticUpdate.ts\<close>) handle plain records. A record is an object
  whose own enumerable properties are kept in insertion order; it is modelled as an
  association list and always read through \<open>map_of\<close> (the first binding of a key is the
  property). Numbers are modelled as integers: identifiers are integers produced by the
  key generator of the store. A \<^verbatim>\<open>Date\<close> is its time value in milliseconds.
\<close>

datatype jsval = Undefined | Null | Bool bool | Num int | Str string | Date int

type_synonym obj = "(string \<times> jsval) list"

text \<open>\<^verbatim>\<open>Object.hasOwn(o, key)\<close>, \<^verbatim>\<open>o[key]\<close>, \<^verbatim>\<open>o[key] = v\<close> and the keys a
  \<^verbatim>\<open>for (const key in o)\<close> loop visits.\<close>

definition hasOwn :: "obj \<Rightarrow> string \<Rightarrow> bool" where
  "hasOwn ob key = (map_of ob key \<noteq> None)"

definition get_prop :: "obj \<Rightarrow> string \<Rightarrow> jsval" where
  "get_prop ob key = (case map_of ob key of None \<Rightarrow> Undefined | Some v \<Rightarrow> v)"

definition set_prop :: "obj \<Rightarrow> string \<Rightarrow> jsval \<Rightarrow> obj" where
  "set_prop ob key v = AList.update key v ob"

definition own_keys :: "obj \<Rightarrow> string list" where
  "own_keys ob = remdups (map fst ob)"

text \<open>Truthiness, as tested by \<^verbatim>\<open>if (actualId)\<close> and \<^verbatim>\<open>!operation.error\<close>.\<close>

fun truthy :: "jsval \<Rightarrow> bool" where
  "truthy Undefined = False"
| "truthy Null = False"
| "truthy (Bool b) = b"
| "truthy (Num n) = (n \<noteq> 0)"
| "truthy (Str s) = (s \<noteq> [])"
| "truthy (Date d) = True"

text \<open>Exceptions: the DOMExceptions of the storage engine, the TypeError of reading a
  property of \<^verbatim>\<open>undefined\<close>, and \<^verbatim>\<open>new Error(message)\<close>.\<close>

datatype exn =
    TypeError | NotFoundError | DataError | ConstraintError | VersionError
  | QuotaExceededError | UnknownError | AbortError | JsError string

text \<open>A promise is pending, fulfilled or rejected, and settles once: a later call of
  \<^verbatim>\<open>resolve\<close> has no effect.\<close>

datatype 'a promise = Pending | Fulfilled 'a | Rejected exn

definition resolve :: "'a \<Rightarrow> 'a promise \<Rightarrow> 'a promise" where
  "resolve v p = (case p of Pending \<Rightarrow> Fulfilled v | Fulfilled w \<Rightarrow> Fulfilled w | Rejected e \<Rightarrow> Rejected e)"

section \<open>The storage engine (IndexedDB object stores)\<close>

text \<open>
  \<^verbatim>\<open>db.ts\<close> runs on the browser's IndexedDB, which is not code of the repository. The
  part of the engine the operations rely on is modelled after the Indexed Database API:
  object stores with an in-line key path and a key generator, records ordered by key,
  unique indexes, and requests that either succeed or fire an error event. A request
  whose error event is not cancelled aborts its transaction, and an aborted transaction
  leaves the database as it was. Every operation of \<^verbatim>\<open>db.ts\<close> opens a transaction of
  its own, so an operation that sees an error event leaves the database unchanged.
  A request can also fail for a reason outside the data (quota, an unknown engine
  error): such a fault is an explicit argument \<open>exn option\<close> of the operation.
  A transaction whose requests have all succeeded commits: an abort that no error event
  announces (a commit the engine cannot complete) is not part of the model.
  Console logging (\<^verbatim>\<open>formatDBError\<close>, the global error handler) has no effect on
  results and is left out.
\<close>

datatype storeName = Users | Skills | UserSkills

record index =
  idx_name :: string
  idx_keyPath :: "string list"
  idx_unique :: bool

record objectStore =
  keyPath :: string
  autoIncrement :: bool
  keyGenerator :: int
  indexes :: "index list"
  records :: "(jsval \<times> obj) list"

record idb =
  version :: nat
  objectStores :: "storeName \<Rightarrow> objectStore option"

text \<open>Valid keys are numbers, dates and strings (binary keys and array keys do not occur
  in the value model). Numbers sort before dates and dates before strings; strings sort
  by code unit.\<close>

fun valid_key :: "jsval \<Rightarrow> bool" where
  "valid_key (Num n) = True"
| "valid_key (Date d) = True"
| "valid_key (Str s) = True"
| "valid_key v = False"

fun str_less :: "string \<Rightarrow> string \<Rightarrow> bool" where
  "str_less [] [] = False"
| "str_less [] (d # ds) = True"
| "str_less (c # cs) [] = False"
| "str_less (c # cs) (d # ds) =
     ((of_char c :: nat) < of_char d \<or> (c = d \<and> str_less cs ds))"

fun key_less :: "jsval \<Rightarrow> jsval \<Rightarrow> bool" where
  "key_less (Num a) (Num b) = (a < b)"
| "key_less (Num a) (Date e) = True"
| "key_less (Num a) (Str t) = True"
| "key_less (Date d) (Date e) = (d < e)"
| "key_less (Date d) (Str t) = True"
| "key_less (Str s) (Str t) = str_less s t"
| "key_less v w = False"

fun insert_record :: "jsval \<Rightarrow> obj \<Rightarrow> (jsval \<times> obj) list \<Rightarrow> (jsval \<times> obj) list" where
  "insert_record k v [] = [(k, v)]"
| "insert_record k v (r # rs) =
     (if key_less k (fst r) then (k, v) # r # rs else r # insert_record k v rs)"

definition delete_record :: "jsval \<Rightarrow> (jsval \<times> obj) list \<Rightarrow> (jsval \<times> obj) list" where
  "delete_record k rs = filter (\<lambda>r. fst r \<noteq> k) rs"

text \<open>Evaluating a key path on a value fails when the property is missing or
  \<^verbatim>\<open>undefined\<close>. \<^verbatim>\<open>add\<close> and \<^verbatim>\<open>put\<close> extract the in-line key when they are called and
  throw DataError at once when the property holds something that is not a valid key, or
  when there is no key and no key generator.\<close>

definition evaluate_keyPath :: "string \<Rightarrow> obj \<Rightarrow> jsval option" where
  "evaluate_keyPath kp v =
     (case map_of v kp of None \<Rightarrow> None | Some Undefined \<Rightarrow> None | Some w \<Rightarrow> Some w)"

definition extract_key :: "objectStore \<Rightarrow> obj \<Rightarrow> exn + jsval option" where
  "extract_key store v =
     (case evaluate_keyPath (keyPath store) v of
        None \<Rightarrow> if autoIncrement store then Inr None else Inl DataError
      | Some k \<Rightarrow> if valid_key k then Inr (Some k) else Inl DataError)"

text \<open>The key of a record in an index: the values at the index's key paths, when each
  of them is a valid key. A record without such a key is not in the index.\<close>

definition index_key :: "string list \<Rightarrow> obj \<Rightarrow> jsval list option" where
  "index_key paths v =
     (if list_all (\<lambda>p. case evaluate_keyPath p v of None \<Rightarrow> False | Some w \<Rightarrow> valid_key w) paths
      then Some (map (get_prop v) paths) else None)"

definition violates_unique :: "index list \<Rightarrow> obj \<Rightarrow> (jsval \<times> obj) list \<Rightarrow> bool" where
  "violates_unique idxs v rs =
     list_ex (\<lambda>i. idx_unique i \<and> index_key (idx_keyPath i) v \<noteq> None \<and>
                  list_ex (\<lambda>r. index_key (idx_keyPath i) (snd r) = index_key (idx_keyPath i) v) rs)
             idxs"

text \<open>The key generator: it fails beyond \<open>2^53\<close>, and an explicit numeric key at or above
  the current number moves the generator past it.\<close>

definition generate_key :: "objectStore \<Rightarrow> exn + (jsval \<times> objectStore)" where
  "generate_key store =
     (if keyGenerator store > 2 ^ 53 then Inl ConstraintError
      else Inr (Num (keyGenerator store), store\<lparr>keyGenerator := keyGenerator store + 1\<rparr>))"

definition possibly_update_generator :: "objectStore \<Rightarrow> jsval \<Rightarrow> objectStore" where
  "possibly_update_generator store k =
     (case k of
        Num n \<Rightarrow> (let m = min n (2 ^ 53) in
                   if m \<ge> keyGenerator store then store\<lparr>keyGenerator := m + 1\<rparr> else store)
      | _ \<Rightarrow> store)"

text \<open>Storing a record: take or generate the key (a generated key is injected into the
  stored copy at the key path), refuse an existing key when \<open>noOverwrite\<close> is set
  (\<^verbatim>\<open>add\<close>), drop the record the key replaces (\<^verbatim>\<open>put\<close>), refuse a value whose key in a
  unique index is already taken by another record, and insert in key order.\<close>

definition store_record ::
  "objectStore \<Rightarrow> obj \<Rightarrow> jsval option \<Rightarrow> bool \<Rightarrow> exn + (jsval \<times> objectStore)" where
  "store_record store v key noOverwrite =
     (case (case key of
              None \<Rightarrow> (case generate_key store of
                          Inl e \<Rightarrow> Inl e
                        | Inr (k, s) \<Rightarrow> Inr (k, set_prop v (keyPath store) k, s))
            | Some k \<Rightarrow> Inr (k, v, possibly_update_generator store k)) of
        Inl e \<Rightarrow> Inl e
      | Inr (k, v', s) \<Rightarrow>
          if noOverwrite \<and> map_of (records s) k \<noteq> None then Inl ConstraintError
          else (let rs = delete_record k (records s) in
                if violates_unique (indexes s) v' rs then Inl ConstraintError
                else Inr (k, s\<lparr>records := insert_record k v' rs\<rparr>)))"

text \<open>A request to store a value, as \<^verbatim>\<open>store.add(data)\<close> or \<^verbatim>\<open>store.put(data)\<close> creates
  it (\<open>Inl\<close>: the call throws), and its execution (\<open>Inl\<close>: an error event).\<close>

record storeRequest =
  req_store :: objectStore
  req_value :: obj
  req_key :: "jsval option"
  req_noOverwrite :: bool

definition objectStore_add :: "objectStore \<Rightarrow> obj \<Rightarrow> exn + storeRequest" where
  "objectStore_add store v =
     (case extract_key store v of
        Inl e \<Rightarrow> Inl e
      | Inr key \<Rightarrow> Inr \<lparr>req_store = store, req_value = v, req_key = key, req_noOverwrite = True\<rparr>)"

definition objectStore_put :: "objectStore \<Rightarrow> obj \<Rightarrow> exn + storeRequest" where
  "objectStore_put store v =
     (case extract_key store v of
        Inl e \<Rightarrow> Inl e
      | Inr key \<Rightarrow> Inr \<lparr>req_store = store, req_value = v, req_key = key, req_noOverwrite = False\<rparr>)"

definition run_request :: "storeRequest \<Rightarrow> exn option \<Rightarrow> exn + (jsval \<times> objectStore)" where
  "run_request req fault =
     (case fault of
        Some e \<Rightarrow> Inl e
      | None \<Rightarrow> store_record (req_store req) (req_value req) (req_key req) (req_noOverwrite req))"

text \<open>\<^verbatim>\<open>_db.transaction([storeName], mode).objectStore(storeName)\<close>: a TypeError while
  \<^verbatim>\<open>_db\<close> is still undefined, NotFoundError for a store the database does not have.
  \<open>commit\<close> writes the store a successful transaction leaves.\<close>

definition transaction :: "idb option \<Rightarrow> storeName \<Rightarrow> exn + objectStore" where
  "transaction db storeName =
     (case db of
        None \<Rightarrow> Inl TypeError
      | Some d \<Rightarrow> (case objectStores d storeName of
                     None \<Rightarrow> Inl NotFoundError
                   | Some store \<Rightarrow> Inr store))"

definition commit :: "idb option \<Rightarrow> storeName \<Rightarrow> objectStore \<Rightarrow> idb option" where
  "commit db storeName store =
     (case db of
        None \<Rightarrow> None
      | Some d \<Rightarrow> Some (d\<lparr>objectStores := (objectStores d)(storeName \<mapsto> store)\<rparr>))"

section \<open>The storage layer: \<^verbatim>\<open>db.ts\<close>\<close>

subsection \<open>initDB\<close>

text \<open>
  \<^verbatim>\<open>indexedDB.open(DATABASE_NAME, import.meta.env.VITE_PROJECT_DATABASE_VERSION || 3)\<close>.
  The environment variable is a string or undefined: \<^verbatim>\<open>||\<close> replaces undefined and the
  empty string by \<open>3\<close>, and every other string, \<^verbatim>\<open>'0'\<close> included, is passed on as it
  is.
\<close>

definition version_argument :: "string option \<Rightarrow> jsval" where
  "version_argument envVersion =
     (case envVersion of
        None \<Rightarrow> Num 3
      | Some s \<Rightarrow> if truthy (Str s) then Str s else Num 3)"

text \<open>
  The version is an \<^verbatim>\<open>[EnforceRange] unsigned long long\<close>: \<^verbatim>\<open>open\<close> converts its
  argument to a number, throws a TypeError when the number is not finite, takes its
  integer part, and throws a TypeError when that is not within \<open>0\<close> and \<open>2^53 - 1\<close>, or
  is \<open>0\<close>.

  The conversion of a string follows the grammar of numeric string literals: white space
  around it is dropped, the empty string is \<open>0\<close>, a literal is hexadecimal, octal or
  binary behind \<^verbatim>\<open>0x\<close>, \<^verbatim>\<open>0o\<close> or \<^verbatim>\<open>0b\<close>, and otherwise decimal, with a sign, a
  fraction and an exponent, or \<^verbatim>\<open>Infinity\<close>. Every other string is not a number.
  \<open>Decimal neg m k\<close> is the real number \<open>m * 10^k\<close>, negative when \<open>neg\<close> holds, that
  the literal writes; the characters are those of ASCII.
\<close>

datatype numeric = NaN | Infinity bool | Decimal bool nat int

definition StrWhiteSpaceChar :: "char \<Rightarrow> bool" where
  "StrWhiteSpaceChar c =
     (c \<in> set [CHR 0x09, CHR 0x0A, CHR 0x0B, CHR 0x0C, CHR 0x0D, CHR 0x20])"

definition trim :: "string \<Rightarrow> string" where
  "trim s = rev (dropWhile StrWhiteSpaceChar (rev (dropWhile StrWhiteSpaceChar s)))"

definition digit_value :: "char \<Rightarrow> nat option" where
  "digit_value c =
     map_of [(CHR ''0'', 0), (CHR ''1'', 1), (CHR ''2'', 2), (CHR ''3'', 3), (CHR ''4'', 4),
             (CHR ''5'', 5), (CHR ''6'', 6), (CHR ''7'', 7), (CHR ''8'', 8), (CHR ''9'', 9),
             (CHR ''a'', 10), (CHR ''b'', 11), (CHR ''c'', 12), (CHR ''d'', 13),
             (CHR ''e'', 14), (CHR ''f'', 15),
             (CHR ''A'', 10), (CHR ''B'', 11), (CHR ''C'', 12), (CHR ''D'', 13),
             (CHR ''E'', 14), (CHR ''F'', 15)] c"

definition is_digit :: "nat \<Rightarrow> char \<Rightarrow> bool" where
  "is_digit base c = (case digit_value c of None \<Rightarrow> False | Some d \<Rightarrow> d < base)"

definition digits_value :: "nat \<Rightarrow> string \<Rightarrow> nat" where
  "digits_value base ds =
     foldl (\<lambda>acc c. base * acc + (case digit_value c of None \<Rightarrow> 0 | Some d \<Rightarrow> d)) 0 ds"

definition NonDecimalIntegerLiteral :: "string \<Rightarrow> nat option" where
  "NonDecimalIntegerLiteral s =
     (case s of
        z # x # ds \<Rightarrow>
          (let base = (if x = CHR ''x'' \<or> x = CHR ''X'' then 16
                       else if x = CHR ''o'' \<or> x = CHR ''O'' then 8
                       else if x = CHR ''b'' \<or> x = CHR ''B'' then 2 else 0)
           in if z = CHR ''0'' \<and> base \<noteq> 0 \<and> ds \<noteq> [] \<and> list_all (is_digit base) ds
              then Some (digits_value base ds) else None)
      | _ \<Rightarrow> None)"

definition ExponentPart :: "string \<Rightarrow> int option" where
  "ExponentPart s =
     (case s of
        [] \<Rightarrow> Some 0
      | e # r \<Rightarrow>
          (let signed = (r \<noteq> [] \<and> (hd r = CHR ''+'' \<or> hd r = CHR ''-''));
               ds = (if signed then tl r else r)
           in if (e = CHR ''e'' \<or> e = CHR ''E'') \<and> ds \<noteq> [] \<and> list_all (is_digit 10) ds
              then Some (if signed \<and> hd r = CHR ''-'' then - int (digits_value 10 ds)
                         else int (digits_value 10 ds))
              else None))"

definition StrUnsignedDecimalLiteral :: "string \<Rightarrow> (nat \<times> int) option" where
  "StrUnsignedDecimalLiteral s =
     (let ip = takeWhile (is_digit 10) s;
          r = dropWhile (is_digit 10) s;
          dot = (r \<noteq> [] \<and> hd r = CHR ''.'');
          fp = (if dot then takeWhile (is_digit 10) (tl r) else []);
          ex = (if dot then dropWhile (is_digit 10) (tl r) else r)
      in if ip = [] \<and> fp = [] then None
         else case ExponentPart ex of
                None \<Rightarrow> None
              | Some k \<Rightarrow> Some (digits_value 10 (ip @ fp), k - int (length fp)))"

definition StrDecimalLiteral :: "string \<Rightarrow> numeric" where
  "StrDecimalLiteral s =
     (let signed = (s \<noteq> [] \<and> (hd s = CHR ''+'' \<or> hd s = CHR ''-''));
          neg = (signed \<and> hd s = CHR ''-'');
          u = (if signed then tl s else s)
      in if u = ''Infinity'' then Infinity neg
         else case StrUnsignedDecimalLiteral u of
                None \<Rightarrow> NaN
              | Some (m, k) \<Rightarrow> Decimal neg m k)"

definition StringToNumber :: "string \<Rightarrow> numeric" where
  "StringToNumber s =
     (let t = trim s
      in if t = [] then Decimal False 0 0
         else case NonDecimalIntegerLiteral t of
                Some n \<Rightarrow> Decimal False n 0
              | None \<Rightarrow> StrDecimalLiteral t)"

definition ToNumber :: "jsval \<Rightarrow> numeric" where
  "ToNumber v =
     (case v of
        Undefined \<Rightarrow> NaN
      | Null \<Rightarrow> Decimal False 0 0
      | Bool b \<Rightarrow> Decimal False (if b then 1 else 0) 0
      | Num n \<Rightarrow> Decimal (n < 0) (nat \<bar>n\<bar>) 0
      | Str s \<Rightarrow> StringToNumber s
      | Date t \<Rightarrow> Decimal (t < 0) (nat \<bar>t\<bar>) 0)"

text \<open>
  The number is the 64-bit float nearest to the real number written, a tie going to the
  even significand. \<open>IntegerPart m k\<close> is the integer part of the float nearest to
  \<open>m * 10^k\<close>, and \<open>None\<close> when that float is \<open>2^53\<close> or more. Below \<open>1/2\<close> the float is
  below \<open>1\<close>. From \<open>1/2\<close> to \<open>2^53\<close> the floats are the multiples of \<open>2^-j\<close> with a
  significand from \<open>2^52\<close> to \<open>2^53\<close>, for the least \<open>j\<close> such that
  \<open>2^52 \<le> m * 10^k * 2^j\<close>, which \<open>scale\<close> finds among \<open>0, \<dots>, 53\<close>.
  (For a literal of more than 20 significant digits the language lets an engine replace
  the digits behind the 20th by zeros first; here the literal is rounded as it is
  written.)
\<close>

fun scale :: "nat \<Rightarrow> nat \<Rightarrow> nat \<Rightarrow> nat \<Rightarrow> nat" where
  "scale 0 a b j = j"
| "scale (Suc n) a b j = (if 2 ^ 52 * b \<le> a * 2 ^ j then j else scale n a b (Suc j))"

definition IntegerPart :: "nat \<Rightarrow> int \<Rightarrow> nat option" where
  "IntegerPart m k =
     (let a = (if 0 \<le> k then m * 10 ^ nat k else m);
          b = (if 0 \<le> k then 1 else 10 ^ nat (- k))
      in if 2 ^ 53 * b \<le> a then None
         else if 2 * a < b then Some 0
         else (let j = scale 53 a b 0;
                   f = (a * 2 ^ j) div b;
                   r = (a * 2 ^ j) mod b;
                   significand = (if 2 * r < b \<or> (2 * r = b \<and> even f) then f else f + 1)
               in Some (significand div 2 ^ j)))"

definition EnforceRange :: "numeric \<Rightarrow> exn + nat" where
  "EnforceRange x =
     (case x of
        NaN \<Rightarrow> Inl TypeError
      | Infinity neg \<Rightarrow> Inl TypeError
      | Decimal neg m k \<Rightarrow>
          (case IntegerPart m k of
             None \<Rightarrow> Inl TypeError
           | Some n \<Rightarrow> if (neg \<and> 0 < n) \<or> 2 ^ 53 - 1 < n then Inl TypeError else Inr n))"

definition open_version :: "jsval \<Rightarrow> exn + nat" where
  "open_version v =
     (case EnforceRange (ToNumber v) of
        Inl e \<Rightarrow> Inl e
      | Inr n \<Rightarrow> if n = 0 then Inl TypeError else Inr n)"

text \<open>
  The call is made in the executor of the promise, so when \<^verbatim>\<open>open\<close> throws, the promise
  of \<open>initDB\<close> is rejected.

  \<open>existing\<close> is the database the browser holds under that name, if any. An open request
  for a version below the existing one fails with VersionError; for a higher one (or no
  database) the \<^verbatim>\<open>onupgradeneeded\<close> handler runs first. The result is the promise and
  the value of the module's \<^verbatim>\<open>_db\<close>, which stays undefined when the call throws or the
  open request fails.
\<close>

definition Keys :: "storeName \<Rightarrow> string" where
  "Keys s = (case s of Users \<Rightarrow> ''userId'' | Skills \<Rightarrow> ''skillId'' | UserSkills \<Rightarrow> ''userSkillId'')"

definition createObjectStore :: "string \<Rightarrow> bool \<Rightarrow> objectStore" where
  "createObjectStore kp autoInc =
     \<lparr>keyPath = kp, autoIncrement = autoInc, keyGenerator = 1, indexes = [], records = []\<rparr>"

definition createIndex :: "string \<Rightarrow> string list \<Rightarrow> bool \<Rightarrow> objectStore \<Rightarrow> objectStore" where
  "createIndex name paths uniq store =
     store\<lparr>indexes := indexes store @ [\<lparr>idx_name = name, idx_keyPath = paths, idx_unique = uniq\<rparr>]\<rparr>"

definition onupgradeneeded :: "(storeName \<Rightarrow> objectStore option) \<Rightarrow> (storeName \<Rightarrow> objectStore option)" where
  "onupgradeneeded stores =
     (let s1 = (if stores Users = None
                then stores(Users \<mapsto> createObjectStore (Keys Users) True) else stores);
          s2 = (if s1 Skills = None
                then s1(Skills \<mapsto> createObjectStore (Keys Skills) True) else s1);
          s3 = (if s2 UserSkills = None
                then s2(UserSkills \<mapsto>
                       createIndex ''userSkill'' [''userId'', ''skillId''] True
                         (createIndex ''skillId'' [''skillId''] False
                           (createIndex ''userId'' [''userId''] False
                             (createObjectStore (Keys UserSkills) True))))
                else s2)
      in s3)"

definition initDB :: "idb option \<Rightarrow> string option \<Rightarrow> exn option \<Rightarrow> bool promise \<times> idb option" where
  "initDB existing envVersion fault =
     (case open_version (version_argument envVersion) of
        Inl e \<Rightarrow> (Rejected e, None)
      | Inr requested \<Rightarrow>
          (let old_version = (case existing of None \<Rightarrow> 0 | Some d \<Rightarrow> version d);
               old_stores = (case existing of None \<Rightarrow> (\<lambda>s. None) | Some d \<Rightarrow> objectStores d)
           in case fault of
                Some e \<Rightarrow> (resolve False Pending, None)
              | None \<Rightarrow>
                  if requested < old_version then (resolve False Pending, None)
                  else if old_version < requested
                  then (resolve True Pending,
                        Some \<lparr>version = requested, objectStores = onupgradeneeded old_stores\<rparr>)
                  else (resolve True Pending, existing)))"

subsection \<open>create, get, remove, clearStore\<close>

text \<open>
  Each operation builds its promise in the executor of \<^verbatim>\<open>new Promise\<close>: an exception
  thrown there (by \<^verbatim>\<open>_db.transaction\<close> or by \<^verbatim>\<open>store.add\<close>) rejects the promise. An
  error event reaches the request's \<^verbatim>\<open>onerror\<close> handler and then bubbles to the
  handler of the transaction; both call \<^verbatim>\<open>resolve\<close> with the failure value.
\<close>

definition create ::
  "idb option \<Rightarrow> storeName \<Rightarrow> obj \<Rightarrow> exn option \<Rightarrow> jsval option promise \<times> idb option" where
  "create db storeName data fault =
     (case transaction db storeName of
        Inl e \<Rightarrow> (Rejected e, db)
      | Inr store \<Rightarrow>
          (case objectStore_add store data of
             Inl e \<Rightarrow> (Rejected e, db)
           | Inr addRequest \<Rightarrow>
               (case run_request addRequest fault of
                  Inl e \<Rightarrow> (resolve None (resolve None Pending), db)
                | Inr (addedId, store') \<Rightarrow>
                    (resolve (Some addedId) Pending, commit db storeName store'))))"

definition get ::
  "idb option \<Rightarrow> storeName \<Rightarrow> int \<Rightarrow> exn option \<Rightarrow> obj option promise" where
  "get db storeName ident fault =
     (case transaction db storeName of
        Inl e \<Rightarrow> Rejected e
      | Inr store \<Rightarrow>
          (case fault of
             Some e \<Rightarrow> resolve None (resolve None Pending)
           | None \<Rightarrow>
               (let retrievedData = map_of (records store) (Num ident)
                in resolve (case retrievedData of None \<Rightarrow> None | Some v \<Rightarrow> Some v) Pending)))"

definition remove ::
  "idb option \<Rightarrow> storeName \<Rightarrow> int \<Rightarrow> exn option \<Rightarrow> bool promise \<times> idb option" where
  "remove db storeName ident fault =
     (case transaction db storeName of
        Inl e \<Rightarrow> (Rejected e, db)
      | Inr store \<Rightarrow>
          (case fault of
             Some e \<Rightarrow> (resolve False (resolve False Pending), db)
           | None \<Rightarrow>
               (resolve True Pending,
                commit db storeName (store\<lparr>records := delete_record (Num ident) (records store)\<rparr>))))"

definition clearStore ::
  "idb option \<Rightarrow> storeName \<Rightarrow> exn option \<Rightarrow> bool promise \<times> idb option" where
  "clearStore db storeName fault =
     (case transaction db storeName of
        Inl e \<Rightarrow> (Rejected e, db)
      | Inr store \<Rightarrow>
          (case fault of
             Some e \<Rightarrow> (resolve False (resolve False Pending), db)
           | None \<Rightarrow> (resolve True Pending, commit db storeName (store\<lparr>records := []\<rparr>))))"

subsection \<open>update\<close>

text \<open>
  The loop \<^verbatim>\<open>for (const key in newData) if (Object.hasOwn(retrievedData, key))
  retrievedData[key] = newData[key]\<close>, over the keys of \<open>newData\<close>.
\<close>

fun update_fields :: "obj \<Rightarrow> obj \<Rightarrow> string list \<Rightarrow> obj" where
  "update_fields retrievedData newData [] = retrievedData"
| "update_fields retrievedData newData (key # keys) =
     update_fields
       (if hasOwn retrievedData key then set_prop retrievedData key (get_prop newData key)
        else retrievedData)
       newData keys"

text \<open>
  \<open>update\<close> has two requests, the get and the put, each with its own possible fault.
  \<^verbatim>\<open>store.put\<close> is called inside the success handler of the get request: when it
  throws (the merged record holds an invalid key), the engine aborts the transaction with
  no request left to receive an error event, no handler calls \<^verbatim>\<open>resolve\<close>, and the
  promise stays pending. The promise resolves the merged object \<^verbatim>\<open>retrievedData\<close>
  itself; a key the engine generates is injected into the stored copy only.
\<close>

definition update ::
  "idb option \<Rightarrow> storeName \<Rightarrow> int \<Rightarrow> obj \<Rightarrow> (unit \<Rightarrow> obj) \<Rightarrow> exn option \<Rightarrow> exn option
     \<Rightarrow> obj option promise \<times> idb option" where
  "update db storeName ident newData createDefault getFault putFault =
     (case transaction db storeName of
        Inl e \<Rightarrow> (Rejected e, db)
      | Inr store \<Rightarrow>
          (case getFault of
             Some e \<Rightarrow> (resolve None (resolve None Pending), db)
           | None \<Rightarrow>
               (let retrievedData =
                      (case map_of (records store) (Num ident) of
                         None \<Rightarrow> createDefault ()
                       | Some v \<Rightarrow> v);
                    merged = update_fields retrievedData newData (own_keys newData)
                in case objectStore_put store merged of
                     Inl e \<Rightarrow> (Pending, db)
                   | Inr updateRequest \<Rightarrow>
                       (case run_request updateRequest putFault of
                          Inl e \<Rightarrow> (resolve None (resolve None Pending), db)
                        | Inr (k, store') \<Rightarrow>
                            (resolve (Some merged) Pending, commit db storeName store')))))"

subsection \<open>getAll\<close>

text \<open>
  \<open>getAll\<close> is driven by events: one success event of the cursor request per record
  (the handler pushes the value and continues the cursor), a last success event with a
  null cursor, and then the \<^verbatim>\<open>complete\<close> event of the transaction, whose handler is the
  only one that resolves the array. A fault \<open>(n, e)\<close> makes the cursor request fail with
  \<open>e\<close> after \<open>n\<close> records; the error event then bubbles to the transaction.
\<close>

datatype idb_event =
    CursorSuccess "obj option" | RequestError exn | TransactionError exn | TransactionComplete

record getAll_state =
  promise :: "obj list option promise"
  allRetrievedData :: "obj list"

fun getAll_handler :: "idb_event \<Rightarrow> getAll_state \<Rightarrow> getAll_state" where
  "getAll_handler (CursorSuccess cursor) st =
     (case cursor of
        Some v \<Rightarrow> st\<lparr>allRetrievedData := allRetrievedData st @ [v]\<rparr>
      | None \<Rightarrow> st)"
| "getAll_handler (RequestError e) st = st\<lparr>promise := resolve None (promise st)\<rparr>"
| "getAll_handler (TransactionError e) st = st\<lparr>promise := resolve None (promise st)\<rparr>"
| "getAll_handler TransactionComplete st =
     st\<lparr>promise := resolve (Some (allRetrievedData st)) (promise st)\<rparr>"

definition openCursor_events :: "objectStore \<Rightarrow> (nat \<times> exn) option \<Rightarrow> idb_event list" where
  "openCursor_events store fault =
     (case fault of
        None \<Rightarrow> map (\<lambda>r. CursorSuccess (Some (snd r))) (records store)
                 @ [CursorSuccess None, TransactionComplete]
      | Some (n, e) \<Rightarrow> map (\<lambda>r. CursorSuccess (Some (snd r))) (take n (records store))
                 @ [RequestError e, TransactionError e])"

definition getAll_run :: "idb_event list \<Rightarrow> getAll_state" where
  "getAll_run events = fold getAll_handler events \<lparr>promise = Pending, allRetrievedData = []\<rparr>"

definition getAll ::
  "idb option \<Rightarrow> storeName \<Rightarrow> (nat \<times> exn) option \<Rightarrow> obj list option promise" where
  "getAll db storeName fault =
     (case transaction db storeName of
        Inl e \<Rightarrow> Rejected e
      | Inr store \<Rightarrow> promise (getAll_run (openCursor_events store fault)))"

section \<open>The database context: \<^verbatim>\<open>DatabaseContext.tsx\<close>\<close>

text \<open>
  The hook reaches the storage layer through the context, whose \<^verbatim>\<open>executeOperation\<close>
  awaits the operation inside \<^verbatim>\<open>try\<close>/\<^verbatim>\<open>catch\<close> and returns \<^verbatim>\<open>null\<close> when it
  throws. The two kinds of \<^verbatim>\<open>null\<close> (the operation's own and the one of the catch
  block) are the two \<open>None\<close>s of the nested option. The loading and error flags the
  context sets for display are left out.
\<close>

definition executeOperation :: "'a promise \<Rightarrow> 'a option promise" where
  "executeOperation operation =
     (case operation of
        Pending \<Rightarrow> Pending
      | Fulfilled result \<Rightarrow> Fulfilled (Some result)
      | Rejected err \<Rightarrow> Fulfilled None)"

section \<open>The optimistic coordinator: \<^verbatim>\<open>useOptimisticUpdate.ts\<close>\<close>

datatype optimisticAction = CreateAction | UpdateAction | DeleteAction

record pendingOperation =
  op_id :: string
  action :: optimisticAction
  item :: obj
  originalItem :: "obj option"
  confirmed :: bool
  error :: "string option"

text \<open>
  The state \<^verbatim>\<open>Map<string, PendingOperation<T>>\<close>: a JavaScript map keeps its entries in
  insertion order, \<^verbatim>\<open>set\<close> on a key it holds replaces the value in place, and
  \<^verbatim>\<open>values()\<close> lists the entries in that order. Every state update of the hook is a
  function of the previous map, so the map is passed along.
\<close>

type_synonym pendingOperations = "(string \<times> pendingOperation) list"

record optimisticResult =
  success :: bool
  result_item :: "obj option"
  result_error :: "string option"
  operationId :: string

record optimisticState =
  isPending :: bool
  isError :: bool
  isConfirmed :: bool
  state_error :: "string option"
  state_action :: optimisticAction

text \<open>\<^verbatim>\<open>`op_${Date.now()}_${Math.random().toString(36).substring(2, 11)}`\<close>: the clock and
  the random digits are arguments.\<close>

function show_nat :: "nat \<Rightarrow> string" where
  "show_nat n =
     (if n < 10 then [''0123456789'' ! n]
      else show_nat (n div 10) @ [''0123456789'' ! (n mod 10)])"
  by pat_completeness auto
termination
  by (relation "measure id") auto

declare show_nat.simps [simp del]

definition generateOperationId :: "nat \<Rightarrow> string \<Rightarrow> string" where
  "generateOperationId now rnd = ''op_'' @ show_nat now @ ''_'' @ rnd"

text \<open>The object spread \<^verbatim>\<open>{ ...a, ...b }\<close>.\<close>

definition spread :: "obj \<Rightarrow> obj \<Rightarrow> obj" where
  "spread a b = fold (\<lambda>key ob. set_prop ob key (get_prop b key)) (own_keys b) a"

text \<open>
  The \<^verbatim>\<open>try\<close> block of the three operations throws
  \<^verbatim>\<open>new Error('Database operation failed')\<close> when the storage call returns a falsy
  value; the \<^verbatim>\<open>catch\<close> block stores the message of what it caught in the entry and
  returns it. The message of an engine exception is engine text; its name stands for it.
\<close>

fun exn_message :: "exn \<Rightarrow> string" where
  "exn_message (JsError m) = m"
| "exn_message TypeError = ''TypeError''"
| "exn_message NotFoundError = ''NotFoundError''"
| "exn_message DataError = ''DataError''"
| "exn_message ConstraintError = ''ConstraintError''"
| "exn_message VersionError = ''VersionError''"
| "exn_message QuotaExceededError = ''QuotaExceededError''"
| "exn_message UnknownError = ''UnknownError''"
| "exn_message AbortError = ''AbortError''"

definition mark_error :: "string \<Rightarrow> string \<Rightarrow> pendingOperations \<Rightarrow> pendingOperations" where
  "mark_error opId message prev =
     (case map_of prev opId of
        None \<Rightarrow> prev
      | Some operation \<Rightarrow> AList.update opId (operation\<lparr>error := Some message\<rparr>) prev)"

definition catch_block ::
  "string \<Rightarrow> exn \<Rightarrow> pendingOperations \<Rightarrow> optimisticResult \<times> pendingOperations" where
  "catch_block opId err pending =
     (\<lparr>success = False, result_item = None,
       result_error = Some (exn_message err), operationId = opId\<rparr>,
      mark_error opId (exn_message err) pending)"

text \<open>The state update of the success branch: the entry, if still there, is confirmed;
  \<open>optimisticCreate\<close> and \<open>optimisticUpdate\<close> also replace its snapshot.\<close>

definition mark_confirmed ::
  "string \<Rightarrow> obj option \<Rightarrow> pendingOperations \<Rightarrow> pendingOperations" where
  "mark_confirmed opId newItem prev =
     (case map_of prev opId of
        None \<Rightarrow> prev
      | Some operation \<Rightarrow>
          AList.update opId
            (operation\<lparr>item := (case newItem of None \<Rightarrow> item operation | Some i \<Rightarrow> i),
                        confirmed := True\<rparr>) prev)"

text \<open>Step 1 of \<open>optimisticCreate\<close>: the entry registered before the storage call.\<close>

definition optimisticCreate_register ::
  "string \<Rightarrow> string \<Rightarrow> obj \<Rightarrow> pendingOperations \<Rightarrow> pendingOperations" where
  "optimisticCreate_register keyField opId newItem prev =
     AList.update opId
       \<lparr>op_id = opId, action = CreateAction,
        item = set_prop newItem keyField (Str (''temp_'' @ opId)),
        originalItem = None, confirmed = False, error = None\<rparr> prev"

definition optimisticCreate ::
  "storeName \<Rightarrow> string \<Rightarrow> nat \<Rightarrow> string \<Rightarrow> obj \<Rightarrow> exn option
     \<Rightarrow> pendingOperations \<times> idb option
     \<Rightarrow> optimisticResult promise \<times> pendingOperations \<times> idb option" where
  "optimisticCreate store keyField now rnd newItem fault st =
     (let opId = generateOperationId now rnd;
          optimisticItem = set_prop newItem keyField (Str (''temp_'' @ opId));
          pending = optimisticCreate_register keyField opId newItem (fst st);
          (p, db') = create (snd st) store newItem fault;
          failed = (\<lambda>err. let (r, ops) = catch_block opId err pending in (Fulfilled r, ops, db'))
      in case executeOperation p of
           Pending \<Rightarrow> (Pending, pending, db')
         | Rejected err \<Rightarrow> failed err
         | Fulfilled actualId \<Rightarrow>
             (case actualId of
                Some (Some k) \<Rightarrow>
                  if truthy k
                  then (let confirmedItem = set_prop optimisticItem keyField k
                        in (Fulfilled \<lparr>success = True, result_item = Some confirmedItem,
                                       result_error = None, operationId = opId\<rparr>,
                            mark_confirmed opId (Some confirmedItem) pending, db'))
                  else failed (JsError ''Database operation failed'')
              | _ \<Rightarrow> failed (JsError ''Database operation failed'')))"





definition clearOperation :: "string \<Rightarrow> pendingOperations \<Rightarrow> pendingOperations" where
  "clearOperation opId prev = AList.delete opId prev"

definition getPendingOperations :: "pendingOperations \<Rightarrow> pendingOperation list" where
  "getPendingOperations ops = map snd ops"

text \<open>The predicate of \<^verbatim>\<open>find\<close> and \<^verbatim>\<open>some\<close> in the two lookups:
  \<^verbatim>\<open>opItemId === itemId || opItemId === `temp_${op.id}`\<close>.\<close>

definition matches_item :: "string \<Rightarrow> jsval \<Rightarrow> pendingOperation \<Rightarrow> bool" where
  "matches_item keyField itemId operation =
     (let opItemId = get_prop (item operation) keyField
      in opItemId = itemId \<or> opItemId = Str (''temp_'' @ op_id operation))"

definition hasPendingOperation :: "string \<Rightarrow> pendingOperations \<Rightarrow> jsval \<Rightarrow> bool" where
  "hasPendingOperation keyField ops itemId =
     list_ex (matches_item keyField itemId) (getPendingOperations ops)"

definition getOptimisticState ::
  "string \<Rightarrow> pendingOperations \<Rightarrow> jsval \<Rightarrow> optimisticState option" where
  "getOptimisticState keyField ops itemId =
     (case find (matches_item keyField itemId) (getPendingOperations ops) of
        None \<Rightarrow> None
      | Some operation \<Rightarrow>
          Some \<lparr>isPending = (\<not> confirmed operation \<and>
                             (case error operation of None \<Rightarrow> True | Some m \<Rightarrow> m = [])),
                isError = (case error operation of None \<Rightarrow> False | Some m \<Rightarrow> m \<noteq> []),
                isConfirmed = confirmed operation,
                state_error = error operation,
                state_action = action operation\<rparr>)"

section \<open>Notions used to state the properties\<close>

text \<open>
  The copy of a value the engine stores: a generated key is written at the key path, an
  extracted key is already there.
\<close>

definition stored_value :: "objectStore \<Rightarrow> obj \<Rightarrow> jsval option \<Rightarrow> jsval \<Rightarrow> obj" where
  "stored_value store v key k =
     (case key of None \<Rightarrow> set_prop v (keyPath store) k | Some k0 \<Rightarrow> v)"

text \<open>
  The record that overwriting the fields of a partial-update argument onto a record
  gives, as a map from field names to values: the fields of the argument, and the other
  fields of the record. It is what the object spread of \<open>optimisticUpdate\<close> computes.
\<close>

definition overwritten :: "obj \<Rightarrow> obj \<Rightarrow> (string \<rightharpoonup> jsval)" where
  "overwritten r partial = map_of r ++ map_of partial"

text \<open>
  \<open>create_all\<close> runs \<open>create\<close> on the records of a list, one after the other and
  without injected fault, and yields the ids and the final database when every create
  resolved an id.
\<close>

fun create_all ::
  "idb option \<Rightarrow> storeName \<Rightarrow> obj list \<Rightarrow> (jsval list \<times> idb option) option" where
  "create_all db storeName [] = Some ([], db)"
| "create_all db storeName (r # rs) =
     (case create db storeName r None of
        (Fulfilled (Some k), db') \<Rightarrow>
          (case create_all db' storeName rs of
             None \<Rightarrow> None
           | Some (ks, db'') \<Rightarrow> Some (k # ks, db''))
      | _ \<Rightarrow> None)"

text \<open>
  A store is well-formed when its records are in ascending key order and each holds its
  own, valid key at the key path. A store without records is, and \<^verbatim>\<open>add\<close> keeps it so.
\<close>

definition store_ok :: "objectStore \<Rightarrow> bool" where
  "store_ok s =
     (sorted_wrt key_less (map fst (records s))
      \<and> list_all (\<lambda>r. valid_key (fst r) \<and> map_of (snd r) (keyPath s) = Some (fst r)) (records s))"

text \<open>
  The type \<^verbatim>\<open>UserSkill\<close> of \<^verbatim>\<open>types.ts\<close>: an optional numeric \<^verbatim>\<open>userSkillId\<close>, numeric
  \<^verbatim>\<open>userId\<close> and \<^verbatim>\<open>skillId\<close>, one of four proficiency levels, and a date.
\<close>

definition is_UserSkill :: "obj \<Rightarrow> bool" where
  "is_UserSkill r =
     ((case map_of r ''userSkillId'' of
         None \<Rightarrow> True | Some Undefined \<Rightarrow> True | Some (Num n) \<Rightarrow> True | Some v \<Rightarrow> False)
      \<and> (case map_of r ''userId'' of Some (Num n) \<Rightarrow> True | _ \<Rightarrow> False)
      \<and> (case map_of r ''skillId'' of Some (Num n) \<Rightarrow> True | _ \<Rightarrow> False)
      \<and> (case map_of r ''proficiencyLevel'' of
            Some (Str s) \<Rightarrow> s \<in> set [''learning'', ''familiar'', ''proficient'', ''expert'']
          | _ \<Rightarrow> False)
      \<and> (case map_of r ''assignedAt'' of Some (Date d) \<Rightarrow> True | _ \<Rightarrow> False))"

text \<open>
  The (\<^verbatim>\<open>userId\<close>, \<^verbatim>\<open>skillId\<close>) pairs of the records of a store, one per record that has
  both as valid keys, and the invariant of the \<^verbatim>\<open>userSkills\<close> collection: the store has
  the key path, the key generator and the unique pair index that \<open>initDB\<close> gives it, and no
  pair occurs twice. A database without that store satisfies it.
\<close>

definition pairs :: "objectStore \<Rightarrow> jsval list list" where
  "pairs s = List.map_filter (\<lambda>r. index_key [''userId'', ''skillId''] (snd r)) (records s)"

definition unique_pairs :: "objectStore \<Rightarrow> bool" where
  "unique_pairs s =
     (keyPath s = Keys UserSkills \<and> autoIncrement s
      \<and> list_ex (\<lambda>i. idx_unique i \<and> idx_keyPath i = [''userId'', ''skillId'']) (indexes s)
      \<and> distinct (pairs s))"

definition userSkills_invariant :: "idb option \<Rightarrow> bool" where
  "userSkills_invariant db =
     (case transaction db UserSkills of Inl e \<Rightarrow> True | Inr s \<Rightarrow> unique_pairs s)"

subsection \<open>Example data\<close>

text \<open>
  A database as \<open>initDB\<close> creates it in a browser that holds none; the user of the
  end-to-end example, the database after that user has been created, and the stores
  before and after; partial-update arguments; the same user after an update of the
  e-mail address.
\<close>

definition fresh_db :: "idb option" where
  "fresh_db = snd (initDB None None None)"

definition alice :: obj where
  "alice = [(''name'', Str ''Alice''), (''email'', Str ''alice@example.com''),
            (''createdAt'', Date 0)]"

definition alice1 :: obj where
  "alice1 = alice @ [(''userId'', Num 1)]"

definition db1 :: "idb option" where
  "db1 = snd (create fresh_db Users alice None)"

definition db2 :: "idb option" where
  "db2 = snd (create db1 Users alice None)"

definition users0 :: objectStore where
  "users0 = \<lparr>keyPath = ''userId'', autoIncrement = True, keyGenerator = 1, indexes = [],
             records = []\<rparr>"

definition users1 :: objectStore where
  "users1 = \<lparr>keyPath = ''userId'', autoIncrement = True, keyGenerator = 2, indexes = [],
             records = [(Num 1, alice1)]\<rparr>"

definition new_email :: obj where
  "new_email = [(''email'', Str ''al@example.com'')]"

definition alice2 :: obj where
  "alice2 = [(''name'', Str ''Alice''), (''email'', Str ''al@example.com''),
             (''createdAt'', Date 0), (''userId'', Num 1)]"

definition alice_al :: obj where
  "alice_al = [(''name'', Str ''Alice''), (''email'', Str ''al@example.com''),
               (''createdAt'', Date 0)]"

definition users_al :: objectStore where
  "users_al = \<lparr>keyPath = ''userId'', autoIncrement = True, keyGenerator = 2, indexes = [],
               records = [(Num 1, alice2)]\<rparr>"

definition nickname :: obj where
  "nickname = [(''nickname'', Str ''Al'')]"

definition seven :: obj where
  "seven = [(''userId'', Num 7)]"

text \<open>
  The two requests that fail on \<open>users1\<close> in the examples: adding a record under the key
  the store already holds, and a put that meets an injected fault.
\<close>

definition add_alice1 :: storeRequest where
  "add_alice1 = \<lparr>req_store = users1, req_value = alice1, req_key = Some (Num 1),
                  req_noOverwrite = True\<rparr>"

definition put_alice2 :: storeRequest where
  "put_alice2 = \<lparr>req_store = users1, req_value = alice2, req_key = Some (Num 1),
                  req_noOverwrite = False\<rparr>"

text \<open>
  A link between user \<open>1\<close> and skill \<open>1\<close>, and the database and store after it has been
  created.
\<close>

definition link :: obj where
  "link = [(''userId'', Num 1), (''skillId'', Num 1), (''proficiencyLevel'', Str ''proficient''),
           (''assignedAt'', Date 0)]"

definition db_link :: "idb option" where
  "db_link = snd (create fresh_db UserSkills link None)"

definition userSkills1 :: objectStore where
  "userSkills1 =
     \<lparr>keyPath = ''userSkillId'', autoIncrement = True, keyGenerator = 2,
      indexes = [\<lparr>idx_name = ''userId'', idx_keyPath = [''userId''], idx_unique = False\<rparr>,
                 \<lparr>idx_name = ''skillId'', idx_keyPath = [''skillId''], idx_unique = False\<rparr>,
                 \<lparr>idx_name = ''userSkill'', idx_keyPath = [''userId'', ''skillId''],
                  idx_unique = True\<rparr>],
      records = [(Num 1, link @ [(''userSkillId'', Num 1)])]\<rparr>"

text \<open>
  States of the coordinator: the map with one create in flight; map and database after an
  \<open>optimisticCreate\<close> whose storage call failed; and a second \<open>optimisticCreate\<close>, which
  succeeds, started from there.
\<close>

definition in_flight :: pendingOperations where
  "in_flight = optimisticCreate_register ''userId'' (generateOperationId 17 ''a'') alice []"

definition after_failed_create :: "pendingOperations \<times> idb option" where
  "after_failed_create =
     snd (optimisticCreate Users ''userId'' 17 ''a'' alice (Some QuotaExceededError) ([], fresh_db))"

definition second_create ::
  "optimisticResult promise \<times> pendingOperations \<times> idb option" where
  "second_create = optimisticCreate Users ''userId'' 42 ''b'' alice None after_failed_create"

section \<open>Objects and the merge loop\<close>

lemma map_of_set_prop: "map_of (set_prop ob k v) = (map_of ob)(k \<mapsto> v)"
  by (simp add: set_prop_def update_conv')

lemma hasOwn_set_prop: "hasOwn (set_prop ob k v) k' = (k' = k \<or> hasOwn ob k')"
  by (simp add: hasOwn_def map_of_set_prop)

lemma get_prop_set_prop: "get_prop (set_prop ob k v) k' = (if k' = k then v else get_prop ob k')"
  by (simp add: get_prop_def map_of_set_prop)

lemma own_keys_iff: "k \<in> set (own_keys ob) \<longleftrightarrow> hasOwn ob k"
  by (auto simp: own_keys_def hasOwn_def map_of_eq_None_iff)

lemma hasOwn_update_fields: "hasOwn (update_fields r n ks) k = hasOwn r k"
  by (induction ks arbitrary: r) (auto simp: hasOwn_set_prop)

lemma map_of_update_fields:
  "map_of (update_fields r n ks) k =
     (if k \<in> set ks \<and> hasOwn r k then Some (get_prop n k) else map_of r k)"
proof (induction ks arbitrary: r)
  case Nil
  then show ?case by simp
next
  case (Cons a ks)
  then show ?case
    by (auto simp: map_of_set_prop hasOwn_set_prop)
qed

lemma map_of_merged:
  "map_of (update_fields r n (own_keys n)) k =
     (if hasOwn r k \<and> hasOwn n k then map_of n k else map_of r k)"
  by (auto simp: map_of_update_fields own_keys_iff hasOwn_def get_prop_def)

section \<open>The records of a store\<close>

lemma set_insert_record: "set (insert_record k v rs) = insert (k, v) (set rs)"
  by (induction rs) auto

lemma length_insert_record: "length (insert_record k v rs) = Suc (length rs)"
  by (induction rs) auto

lemma map_of_insert_record:
  "map_of rs k = None \<Longrightarrow> map_of (insert_record k v rs) = (map_of rs)(k \<mapsto> v)"
  by (induction rs) (auto simp: fun_eq_iff)

lemma map_of_delete_record: "map_of (delete_record k rs) = (map_of rs)(k := None)"
  by (induction rs) (auto simp: delete_record_def fun_eq_iff)

lemma delete_record_absent: "map_of rs k = None \<Longrightarrow> delete_record k rs = rs"
  by (induction rs) (auto simp: delete_record_def split: if_splits)

lemma map_of_None_keys: "map_of rs k = None \<longleftrightarrow> k \<notin> fst ` set rs"
  by (simp add: map_of_eq_None_iff)

subsection \<open>The order of keys\<close>

lemma str_less_irrefl: "\<not> str_less s s"
  by (induction s) auto

lemma str_less_trans: "str_less a b \<Longrightarrow> str_less b c \<Longrightarrow> str_less a c"
proof (induction a b arbitrary: c rule: str_less.induct)
  case (2 d ds)
  then show ?case by (cases c) auto
next
  case (4 x xs y ys)
  then show ?case by (cases c) auto
qed auto

lemma str_less_total: "a \<noteq> b \<Longrightarrow> \<not> str_less a b \<Longrightarrow> str_less b a"
proof (induction a b rule: str_less.induct)
  case (4 c cs d ds)
  then show ?case by (auto simp: not_less le_less)
qed auto

lemma key_less_irrefl: "\<not> key_less k k"
  by (cases k) (auto simp: str_less_irrefl)

lemma key_less_trans: "key_less a b \<Longrightarrow> key_less b c \<Longrightarrow> key_less a c"
  by (cases a; cases b; cases c) (auto intro: str_less_trans)

lemma key_less_total:
  "valid_key a \<Longrightarrow> valid_key b \<Longrightarrow> a \<noteq> b \<Longrightarrow> \<not> key_less a b \<Longrightarrow> key_less b a"
  by (cases a; cases b) (auto intro: str_less_total)

lemma sorted_insert_record:
  assumes "sorted_wrt key_less (map fst rs)" "list_all (\<lambda>r. valid_key (fst r)) rs"
    "valid_key k" "k \<notin> fst ` set rs"
  shows "sorted_wrt key_less (map fst (insert_record k v rs))"
  using assms
proof (induction rs)
  case Nil
  then show ?case by simp
next
  case (Cons r rs)
  show ?case
  proof (cases "key_less k (fst r)")
    case True
    with Cons.prems show ?thesis by (auto intro: key_less_trans)
  next
    case False
    with Cons.prems have "key_less (fst r) k" by (auto intro: key_less_total)
    with False Cons show ?thesis by (auto simp: set_insert_record)
  qed
qed

lemma sorted_keys_distinct: "sorted_wrt key_less ks \<Longrightarrow> distinct ks"
  by (induction ks) (auto simp: key_less_irrefl)

section \<open>Storing a record\<close>

lemma generate_key_fields:
  "generate_key store = Inr (k, s) \<Longrightarrow>
     k = Num (keyGenerator store) \<and> records s = records store \<and> indexes s = indexes store
     \<and> keyPath s = keyPath store \<and> autoIncrement s = autoIncrement store"
  by (auto simp: generate_key_def split: if_splits)

lemma possibly_update_generator_fields:
  "records (possibly_update_generator store k) = records store
   \<and> indexes (possibly_update_generator store k) = indexes store
   \<and> keyPath (possibly_update_generator store k) = keyPath store
   \<and> autoIncrement (possibly_update_generator store k) = autoIncrement store"
  by (auto simp: possibly_update_generator_def Let_def split: jsval.splits)

lemma store_record_success:
  assumes "store_record store v key nov = Inr (k, s')"
  shows "records s' = insert_record k (stored_value store v key k) (delete_record k (records store))"
    and "indexes s' = indexes store"
    and "keyPath s' = keyPath store"
    and "autoIncrement s' = autoIncrement store"
    and "key = None \<Longrightarrow> k = Num (keyGenerator store)"
    and "key = Some k0 \<Longrightarrow> k = k0"
    and "\<not> violates_unique (indexes store) (stored_value store v key k) (delete_record k (records store))"
    and "nov \<Longrightarrow> map_of (records store) k = None"
  using assms possibly_update_generator_fields[of store]
  by (auto simp: store_record_def stored_value_def Let_def
      split: option.splits sum.splits if_splits prod.splits dest!: generate_key_fields)

lemma extract_key_Some:
  "extract_key store r = Inr (Some k) \<Longrightarrow> map_of r (keyPath store) = Some k"
  by (auto simp: extract_key_def evaluate_keyPath_def split: option.splits jsval.splits if_splits)

lemma extract_key_valid: "extract_key store v = Inr (Some k) \<Longrightarrow> valid_key k"
  by (auto simp: extract_key_def split: option.splits if_splits)

lemma map_of_stored_value:
  assumes "extract_key store r = Inr key" "key = None \<or> key = Some k"
  shows "map_of (stored_value store r key k) = (map_of r)(keyPath store \<mapsto> k)"
proof (cases key)
  case None
  then show ?thesis by (simp add: stored_value_def map_of_set_prop)
next
  case (Some k0)
  with assms have "extract_key store r = Inr (Some k)" by auto
  then have "map_of r (keyPath store) = Some k" by (auto dest: extract_key_Some)
  with Some show ?thesis by (auto simp: stored_value_def fun_eq_iff)
qed

lemma stored_at_key:
  assumes e: "extract_key store v = Inr key"
    and s: "store_record store v key nov = Inr (k, s')"
  shows "\<exists>stored. map_of (records s') k = Some stored
            \<and> map_of stored = (map_of v)(keyPath store \<mapsto> k)"
proof -
  let ?v = "stored_value store v key k"
  have "map_of (records s') k = Some ?v"
    unfolding store_record_success(1)[OF s]
    by (simp add: map_of_insert_record map_of_delete_record)
  moreover have "key = None \<or> key = Some k"
    using store_record_success(6)[OF s] by (cases key) auto
  then have "map_of ?v = (map_of v)(keyPath store \<mapsto> k)"
    using map_of_stored_value[OF e] by blast
  ultimately show ?thesis by blast
qed

lemma add_record_ok:
  assumes ok: "store_ok s"
    and e: "extract_key s v = Inr key"
    and st: "store_record s v key True = Inr (k, s')"
  shows "store_ok s'"
    and "keyPath s' = keyPath s"
    and "length (records s') = Suc (length (records s))"
    and "fst ` set (records s') = insert k (fst ` set (records s))"
proof -
  let ?v = "stored_value s v key k"
  have absent: "map_of (records s) k = None" using store_record_success(8)[OF st] by simp
  have recs: "records s' = insert_record k ?v (records s)"
    using store_record_success(1)[OF st] absent by (simp add: delete_record_absent)
  have kk: "key = None \<or> key = Some k"
    using store_record_success(6)[OF st] by (cases key) auto
  have valid: "valid_key k"
  proof (cases key)
    case None
    then show ?thesis using store_record_success(5)[OF st] by simp
  next
    case (Some k0)
    with kk e show ?thesis by (auto dest: extract_key_valid)
  qed
  have field: "map_of ?v (keyPath s) = Some k"
    using map_of_stored_value[OF e kk] by simp
  show kp: "keyPath s' = keyPath s" using store_record_success(3)[OF st] .
  have all: "list_all (\<lambda>r. valid_key (fst r)) (records s)"
    using ok by (auto simp: store_ok_def list_all_iff)
  have "sorted_wrt key_less (map fst (records s'))"
    unfolding recs using ok absent valid all
    by (intro sorted_insert_record) (auto simp: store_ok_def map_of_None_keys)
  moreover have "list_all (\<lambda>r. valid_key (fst r) \<and> map_of (snd r) (keyPath s') = Some (fst r)) (records s')"
    unfolding recs kp using ok valid field
    by (auto simp: store_ok_def list_all_iff set_insert_record)
  ultimately show "store_ok s'" by (simp add: store_ok_def)
  show "length (records s') = Suc (length (records s))"
    by (simp add: recs length_insert_record)
  show "fst ` set (records s') = insert k (fst ` set (records s))"
    by (simp add: recs set_insert_record)
qed

section \<open>Transactions and the operations, step by step\<close>

lemma transaction_commit:
  "transaction db sn = Inr store \<Longrightarrow> transaction (commit db sn s') sn = Inr s'"
  by (auto simp: transaction_def commit_def split: option.splits)

lemma transaction_commit_other:
  "sn' \<noteq> sn \<Longrightarrow> transaction (commit db sn s') sn' = transaction db sn'"
  by (auto simp: transaction_def commit_def split: option.splits)

lemma create_success:
  assumes "create db sn r fault = (Fulfilled (Some k), db')"
  shows "\<exists>store key s'. transaction db sn = Inr store \<and> fault = None
           \<and> extract_key store r = Inr key
           \<and> store_record store r key True = Inr (k, s') \<and> db' = commit db sn s'"
  using assms
  by (auto simp: create_def objectStore_add_def run_request_def resolve_def
      split: sum.splits option.splits prod.splits)

lemma update_success:
  assumes "update db sn i partial factory gf pf = (Fulfilled (Some result), db')"
  shows "\<exists>store key k s'. transaction db sn = Inr store
           \<and> result = update_fields
                 (case map_of (records store) (Num i) of None \<Rightarrow> factory () | Some v \<Rightarrow> v)
                 partial (own_keys partial)
           \<and> extract_key store result = Inr key
           \<and> store_record store result key False = Inr (k, s') \<and> db' = commit db sn s'"
  using assms
  by (auto simp: update_def objectStore_put_def resolve_def Let_def run_request_def
      split: sum.splits option.splits prod.splits)

lemma update_stores_merged:
  assumes t: "transaction db storeName = Inr store"
    and b: "base = (case map_of (records store) (Num ident) of None \<Rightarrow> factory () | Some v \<Rightarrow> v)"
    and e: "extract_key store (update_fields base partial (own_keys partial)) = Inr key"
    and s: "store_record store (update_fields base partial (own_keys partial)) key False = Inr (k, store')"
  shows "\<exists>merged stored.
           update db storeName ident partial factory None None
             = (Fulfilled (Some merged), commit db storeName store')
         \<and> (\<forall>f. map_of merged f =
               (if hasOwn base f \<and> hasOwn partial f then map_of partial f else map_of base f))
         \<and> map_of (records store') k = Some stored
         \<and> map_of stored = (map_of merged)(keyPath store \<mapsto> k)"
proof -
  let ?m = "update_fields base partial (own_keys partial)"
  have u: "update db storeName ident partial factory None None
             = (Fulfilled (Some ?m), commit db storeName store')"
    using t b e s
    by (simp add: update_def objectStore_put_def run_request_def resolve_def Let_def)
  from stored_at_key[OF e s] obtain stored where
    "map_of (records store') k = Some stored" "map_of stored = (map_of ?m)(keyPath store \<mapsto> k)"
    by blast
  with u show ?thesis by (auto simp: map_of_merged)
qed




lemma create_all_ok:
  assumes "create_all db sn rs = Some (ids, db')" "transaction db sn = Inr s" "store_ok s"
  shows "\<exists>s'. transaction db' sn = Inr s' \<and> store_ok s' \<and> keyPath s' = keyPath s
           \<and> length (records s') = length (records s) + length rs
           \<and> fst ` set (records s') = fst ` set (records s) \<union> set ids"
  using assms
proof (induction rs arbitrary: db ids s)
  case Nil
  then show ?case by auto
next
  case (Cons r rs)
  from Cons.prems(1) obtain k d ks where
    c: "create db sn r None = (Fulfilled (Some k), d)" and
    ca: "create_all d sn rs = Some (ks, db')" and
    ids: "ids = k # ks"
    by (auto split: prod.splits promise.splits option.splits)
  from create_success[OF c] Cons.prems(2) obtain key s1 where
    e: "extract_key s r = Inr key" and
    st: "store_record s r key True = Inr (k, s1)" and
    d: "d = commit db sn s1" by auto
  note a = add_record_ok[OF Cons.prems(3) e st]
  have t1: "transaction d sn = Inr s1" using Cons.prems(2) d by (simp add: transaction_commit)
  from Cons.IH[OF ca t1 a(1)] obtain s' where
    "transaction db' sn = Inr s'" "store_ok s'" "keyPath s' = keyPath s1"
    "length (records s') = length (records s1) + length rs"
    "fst ` set (records s') = fst ` set (records s1) \<union> set ks" by blast
  with a ids show ?case by auto
qed

subsection \<open>The events of getAll\<close>

lemma getAll_successes:
  "fold getAll_handler (map (\<lambda>r. CursorSuccess (Some (snd r))) rs) st
     = st\<lparr>allRetrievedData := allRetrievedData st @ map snd rs\<rparr>"
  by (induction rs arbitrary: st) auto

lemma getAll_no_fault:
  "transaction db sn = Inr s \<Longrightarrow> getAll db sn None = Fulfilled (Some (map snd (records s)))"
  by (simp add: getAll_def getAll_run_def openCursor_events_def getAll_successes resolve_def)

lemma getAll_fault:
  "transaction db sn = Inr s \<Longrightarrow> getAll db sn (Some (n, e)) = Fulfilled None"
  by (simp add: getAll_def getAll_run_def openCursor_events_def getAll_successes resolve_def)

lemma getAll_pending_prefix:
  assumes "n \<le> Suc (length (records s))"
  shows "promise (getAll_run (take n (openCursor_events s None))) = Pending"
proof -
  let ?succ = "map (\<lambda>r. CursorSuccess (Some (snd r))) (records s)"
  have "n - length (records s) = 0 \<or> n - length (records s) = Suc 0"
    using assms by arith
  then have "take (n - length (records s)) [CursorSuccess None, TransactionComplete]
      = take (n - length (records s)) [CursorSuccess None]"
    by auto
  then have t: "take n (openCursor_events s None)
      = map (\<lambda>r. CursorSuccess (Some (snd r))) (take n (records s))
        @ take (n - length (records s)) [CursorSuccess None]"
    by (simp add: openCursor_events_def take_map)
  show ?thesis
    unfolding t getAll_run_def
    by (cases "n - length (records s)") (simp_all add: getAll_successes)
qed

lemma ids_of_records:
  assumes "store_ok s"
  shows "map (\<lambda>x. get_prop x (keyPath s)) (map snd (records s)) = map fst (records s)"
  using assms by (auto simp: store_ok_def list_all_iff get_prop_def)

section \<open>The pair index of userSkills\<close>

lemma set_map_filter_insert_record:
  "set (List.map_filter f (insert_record k v rs)) = set (List.map_filter f ((k, v) # rs))"
  by (induction rs) (auto simp: map_filter_simps split: option.splits)

lemma distinct_map_filter_insert_record:
  "distinct (List.map_filter f (insert_record k v rs)) = distinct (List.map_filter f ((k, v) # rs))"
  by (induction rs)
     (auto simp: map_filter_simps set_map_filter_insert_record split: option.splits)

lemma set_map_filter_delete_record:
  "set (List.map_filter f (delete_record k rs)) \<subseteq> set (List.map_filter f rs)"
  by (induction rs) (auto simp: map_filter_simps delete_record_def split: option.splits)

lemma distinct_map_filter_delete_record:
  "distinct (List.map_filter f rs) \<Longrightarrow> distinct (List.map_filter f (delete_record k rs))"
proof (induction rs)
  case Nil
  then show ?case by (simp add: delete_record_def map_filter_simps)
next
  case (Cons r rs)
  have d: "delete_record k (r # rs) = (if fst r \<noteq> k then r # delete_record k rs else delete_record k rs)"
    by (simp add: delete_record_def)
  from Cons show ?case
    using set_map_filter_delete_record[of f k rs]
    by (auto simp: d map_filter_simps split: option.splits)
qed

lemma no_violation:
  assumes "\<not> violates_unique idxs v rs"
    and "list_ex (\<lambda>i. idx_unique i \<and> idx_keyPath i = paths) idxs"
    and "index_key paths v = Some p"
  shows "p \<notin> set (List.map_filter (\<lambda>r. index_key paths (snd r)) rs)"
  using assms
  by (fastforce simp: violates_unique_def list_ex_iff List.map_filter_def)

lemma violation:
  assumes "list_ex (\<lambda>i. idx_unique i \<and> idx_keyPath i = paths) idxs"
    and "index_key paths v = Some p" "r \<in> set rs" "index_key paths (snd r) = Some p"
  shows "violates_unique idxs v rs"
  using assms by (fastforce simp: violates_unique_def list_ex_iff)

lemma store_record_unique:
  assumes u: "unique_pairs s" and st: "store_record s v key nov = Inr (k, s')"
  shows "unique_pairs s'"
proof -
  let ?f = "\<lambda>r. index_key [''userId'', ''skillId''] (snd r)"
  let ?v = "stored_value s v key k"
  let ?rs = "delete_record k (records s)"
  note r = store_record_success[OF st]
  have idx: "list_ex (\<lambda>i. idx_unique i \<and> idx_keyPath i = [''userId'', ''skillId'']) (indexes s)"
    using u by (simp add: unique_pairs_def)
  have d: "distinct (List.map_filter ?f ?rs)"
    using u by (simp add: unique_pairs_def pairs_def distinct_map_filter_delete_record)
  have "distinct (List.map_filter ?f ((k, ?v) # ?rs))"
  proof (cases "index_key [''userId'', ''skillId''] ?v")
    case None
    with d show ?thesis by (simp add: map_filter_simps)
  next
    case (Some p)
    from no_violation[OF r(7) idx Some] d Some show ?thesis
      by (simp add: map_filter_simps)
  qed
  then have "distinct (pairs s')"
    by (simp add: pairs_def r(1) distinct_map_filter_insert_record)
  with u r(2,3,4) show ?thesis by (simp add: unique_pairs_def)
qed

lemma invariant_commit:
  assumes "userSkills_invariant db" "transaction db sn = Inr s"
    "sn = UserSkills \<longrightarrow> unique_pairs s'"
  shows "userSkills_invariant (commit db sn s')"
proof (cases "sn = UserSkills")
  case True
  with assms show ?thesis by (simp add: userSkills_invariant_def transaction_commit)
next
  case False
  then have "transaction (commit db sn s') UserSkills = transaction db UserSkills"
    by (simp add: transaction_commit_other)
  with assms(1) show ?thesis by (simp add: userSkills_invariant_def)
qed

lemma invariant_store:
  "userSkills_invariant db \<Longrightarrow> transaction db UserSkills = Inr s \<Longrightarrow> unique_pairs s"
  by (simp add: userSkills_invariant_def)

lemma create_invariant:
  assumes "userSkills_invariant db"
  shows "userSkills_invariant (snd (create db sn data f))"
proof (cases "\<exists>k. fst (create db sn data f) = Fulfilled (Some k)")
  case True
  then obtain k where "create db sn data f = (Fulfilled (Some k), snd (create db sn data f))"
    by (auto simp: prod_eq_iff)
  from create_success[OF this] obtain s key s' where
    t: "transaction db sn = Inr s" and st: "store_record s data key True = Inr (k, s')" and
    d: "snd (create db sn data f) = commit db sn s'" by blast
  have "sn = UserSkills \<longrightarrow> unique_pairs s'"
    using invariant_store[OF assms] t store_record_unique[OF _ st] by auto
  with invariant_commit[OF assms t] d show ?thesis by simp
next
  case False
  then have "snd (create db sn data f) = db"
    by (auto simp: create_def resolve_def split: sum.splits prod.splits)
  with assms show ?thesis by simp
qed

lemma update_invariant:
  assumes "userSkills_invariant db"
  shows "userSkills_invariant (snd (update db sn i nd cd gf pf))"
proof (cases "\<exists>r. fst (update db sn i nd cd gf pf) = Fulfilled (Some r)")
  case True
  then obtain r where
    "update db sn i nd cd gf pf = (Fulfilled (Some r), snd (update db sn i nd cd gf pf))"
    by (auto simp: prod_eq_iff)
  from update_success[OF this] obtain s key k s' where
    t: "transaction db sn = Inr s" and st: "store_record s r key False = Inr (k, s')" and
    d: "snd (update db sn i nd cd gf pf) = commit db sn s'" by blast
  have "sn = UserSkills \<longrightarrow> unique_pairs s'"
    using invariant_store[OF assms] t store_record_unique[OF _ st] by auto
  with invariant_commit[OF assms t] d show ?thesis by simp
next
  case False
  then have "snd (update db sn i nd cd gf pf) = db"
    by (auto simp: update_def resolve_def Let_def split: sum.splits prod.splits option.splits)
  with assms show ?thesis by simp
qed

lemma remove_invariant:
  assumes "userSkills_invariant db"
  shows "userSkills_invariant (snd (remove db sn i f))"
proof (cases "transaction db sn")
  case (Inl e)
  with assms show ?thesis by (simp add: remove_def)
next
  case (Inr s)
  have "sn = UserSkills \<longrightarrow> unique_pairs (s\<lparr>records := delete_record (Num i) (records s)\<rparr>)"
    using invariant_store[OF assms] Inr
    by (auto simp: unique_pairs_def pairs_def distinct_map_filter_delete_record)
  from invariant_commit[OF assms Inr this] assms Inr show ?thesis
    by (cases f) (simp_all add: remove_def)
qed

lemma clearStore_invariant:
  assumes "userSkills_invariant db"
  shows "userSkills_invariant (snd (clearStore db sn f))"
proof (cases "transaction db sn")
  case (Inl e)
  with assms show ?thesis by (simp add: clearStore_def)
next
  case (Inr s)
  have "sn = UserSkills \<longrightarrow> unique_pairs (s\<lparr>records := []\<rparr>)"
    using invariant_store[OF assms] Inr
    by (auto simp: unique_pairs_def pairs_def map_filter_simps)
  from invariant_commit[OF assms Inr this] assms Inr show ?thesis
    by (cases f) (simp_all add: clearStore_def)
qed

lemma initDB_invariant:
  assumes "userSkills_invariant existing"
  shows "userSkills_invariant (snd (initDB existing envVersion f))"
proof -
  have new: "unique_pairs (createIndex ''userSkill'' [''userId'', ''skillId''] True
                         (createIndex ''skillId'' [''skillId''] False
                           (createIndex ''userId'' [''userId''] False
                             (createObjectStore (Keys UserSkills) True))))"
    by (simp add: unique_pairs_def pairs_def createIndex_def createObjectStore_def map_filter_simps)
  have up: "userSkills_invariant (Some \<lparr>version = v, objectStores = onupgradeneeded stores\<rparr>)"
    if "case stores UserSkills of None \<Rightarrow> True | Some s \<Rightarrow> unique_pairs s" for v stores
    using that new
    by (auto simp: userSkills_invariant_def transaction_def onupgradeneeded_def Let_def
        split: option.splits)
  have none: "userSkills_invariant None"
    by (simp add: userSkills_invariant_def transaction_def)
  show ?thesis
  proof (cases existing)
    case None
    then show ?thesis using up[of "\<lambda>s. None"] none
      by (auto simp: initDB_def Let_def resolve_def split: option.splits sum.splits)
  next
    case (Some d)
    with assms have "case objectStores d UserSkills of None \<Rightarrow> True | Some s \<Rightarrow> unique_pairs s"
      by (auto simp: userSkills_invariant_def transaction_def split: option.splits)
    from up[of "objectStores d", OF this] Some assms none show ?thesis
      by (auto simp: initDB_def Let_def resolve_def split: option.splits sum.splits)
  qed
qed

lemma evaluate_keyPath_set_prop_other:
  "p \<noteq> q \<Longrightarrow> evaluate_keyPath p (set_prop v q x) = evaluate_keyPath p v"
  by (simp add: evaluate_keyPath_def map_of_set_prop)

lemma index_key_set_prop_other:
  assumes "q \<notin> set paths"
  shows "index_key paths (set_prop v q x) = index_key paths v"
proof -
  have "\<forall>p \<in> set paths. evaluate_keyPath p (set_prop v q x) = evaluate_keyPath p v"
    using assms by (auto intro!: evaluate_keyPath_set_prop_other)
  moreover have "map (get_prop (set_prop v q x)) paths = map (get_prop v) paths"
    using assms by (auto simp: get_prop_set_prop)
  ultimately show ?thesis
    by (simp add: index_key_def list_all_iff)
qed

lemma is_UserSkill_pair:
  assumes "is_UserSkill data"
  shows "\<exists>u s. index_key [''userId'', ''skillId''] data = Some [Num u, Num s]
           \<and> get_prop data ''userId'' = Num u \<and> get_prop data ''skillId'' = Num s"
  using assms
  by (auto simp: is_UserSkill_def index_key_def evaluate_keyPath_def get_prop_def
      split: option.splits jsval.splits)

lemma is_UserSkill_key:
  assumes "is_UserSkill data" "keyPath store = ''userSkillId''" "autoIncrement store"
  shows "\<exists>key. extract_key store data = Inr key"
  using assms
  by (auto simp: is_UserSkill_def extract_key_def evaluate_keyPath_def
      split: option.splits jsval.splits)

lemma pair_of_props:
  assumes "get_prop r ''userId'' = Num u" "get_prop r ''skillId'' = Num s"
  shows "index_key [''userId'', ''skillId''] r = Some [Num u, Num s]"
  using assms
  by (auto simp: index_key_def evaluate_keyPath_def get_prop_def split: option.splits jsval.splits)

lemma duplicate_pair_rejected:
  assumes inv: "userSkills_invariant db" and t: "transaction db UserSkills = Inr store"
    and mem: "(k, r) \<in> set (records store)"
    and valid: "is_UserSkill data"
    and same: "get_prop r ''userId'' = get_prop data ''userId''"
              "get_prop r ''skillId'' = get_prop data ''skillId''"
  shows "create db UserSkills data f = (Fulfilled None, db)"
proof -
  have u: "unique_pairs store" using invariant_store[OF inv t] .
  then have kp: "keyPath store = ''userSkillId''" and ai: "autoIncrement store"
    and idx: "list_ex (\<lambda>i. idx_unique i \<and> idx_keyPath i = [''userId'', ''skillId'']) (indexes store)"
    by (simp_all add: unique_pairs_def Keys_def)
  from is_UserSkill_key[OF valid kp ai] obtain key where e: "extract_key store data = Inr key"
    by blast
  from is_UserSkill_pair[OF valid] obtain uu ss where
    pd: "index_key [''userId'', ''skillId''] data = Some [Num uu, Num ss]" and
    gu: "get_prop data ''userId'' = Num uu" and gs: "get_prop data ''skillId'' = Num ss" by blast
  have pr: "index_key [''userId'', ''skillId''] r = Some [Num uu, Num ss]"
    using same gu gs by (intro pair_of_props) simp_all
  have fails: "\<exists>err. run_request
      \<lparr>req_store = store, req_value = data, req_key = key, req_noOverwrite = True\<rparr> f = Inl err"
  proof (cases f)
    case (Some err)
    then show ?thesis by (simp add: run_request_def)
  next
    case None
    have "\<exists>err. store_record store data key True = Inl err"
    proof (cases "store_record store data key True")
      case (Inl err)
      then show ?thesis by blast
    next
      case (Inr res)
      obtain k' s' where res: "res = (k', s')" by (cases res)
      note st = Inr[unfolded res]
      note r = store_record_success[OF st]
      have absent: "delete_record k' (records store) = records store"
        using r(8) by (simp add: delete_record_absent)
      have "index_key [''userId'', ''skillId''] (stored_value store data key k')
              = Some [Num uu, Num ss]"
        using pd kp by (cases key) (simp_all add: stored_value_def index_key_set_prop_other)
      from violation[OF idx this mem] pr r(7) absent show ?thesis by simp
    qed
    with None show ?thesis by (simp add: run_request_def)
  qed
  then show ?thesis using t e
    by (auto simp: create_def objectStore_add_def resolve_def)
qed

section \<open>The coordinator\<close>

lemma executeOperation_never_rejects: "executeOperation p \<noteq> Rejected e"
  by (simp add: executeOperation_def split: promise.splits)


lemma temporary_id_not_numeric:
  "get_prop (set_prop newItem keyField (Str (''temp_'' @ opId))) keyField \<noteq> Num n"
  by (simp add: get_prop_set_prop)

lemma map_of_spread_keys:
  "map_of (fold (\<lambda>key ob. set_prop ob key (get_prop b key)) ks a) k =
     (if k \<in> set ks then Some (get_prop b k) else map_of a k)"
  by (induction ks arbitrary: a) (auto simp: map_of_set_prop)

lemma map_of_spread: "map_of (spread a b) = overwritten a b"
proof
  fix k
  have s: "map_of (spread a b) k = (if hasOwn b k then Some (get_prop b k) else map_of a k)"
    unfolding spread_def by (simp add: map_of_spread_keys own_keys_iff)
  show "map_of (spread a b) k = overwritten a b k"
    unfolding s
    by (cases "map_of b k") (simp_all add: overwritten_def hasOwn_def get_prop_def map_add_def)
qed

text \<open>
  Where no entry carries its temporary id any more, \<open>getOptimisticState\<close> is the lookup
  by snapshot identifier.
\<close>

lemma find_matches_by_id:
  assumes "list_all (\<lambda>p. get_prop (item p) keyField \<noteq> Str (''temp_'' @ op_id p))
             (getPendingOperations ops)"
  shows "find (matches_item keyField recordId) (getPendingOperations ops)
      = find (\<lambda>p. get_prop (item p) keyField = recordId) (getPendingOperations ops)"
proof (rule find_cong)
  show "getPendingOperations ops = getPendingOperations ops" by (rule refl)
next
  fix x assume "x \<in> set (getPendingOperations ops)"
  with assms have "get_prop (item x) keyField \<noteq> Str (''temp_'' @ op_id x)"
    unfolding list_all_iff by blast
  then show "matches_item keyField recordId x = (get_prop (item x) keyField = recordId)"
    unfolding matches_item_def Let_def by blast
qed

lemma getOptimisticState_by_id:
  assumes "list_all (\<lambda>p. get_prop (item p) keyField \<noteq> Str (''temp_'' @ op_id p))
             (getPendingOperations ops)"
  shows "getOptimisticState keyField ops recordId =
     (case find (\<lambda>p. get_prop (item p) keyField = recordId) (getPendingOperations ops) of
        None \<Rightarrow> None
      | Some operation \<Rightarrow>
          Some \<lparr>isPending = (\<not> confirmed operation \<and>
                             (case error operation of None \<Rightarrow> True | Some m \<Rightarrow> m = [])),
                isError = (case error operation of None \<Rightarrow> False | Some m \<Rightarrow> m \<noteq> []),
                isConfirmed = confirmed operation,
                state_error = error operation,
                state_action = action operation\<rparr>)"
  by (simp only: getOptimisticState_def find_matches_by_id[OF assms])

text \<open>
  The round trip of \<open>optimisticCreate\<close> on a map in which no other entry matches the new
  id: the entry is confirmed under the real id, and gone after \<open>clearOperation\<close>.
\<close>

lemma find_unique:
  assumes "x \<in> set xs" "P x" "\<forall>y \<in> set xs. P y \<longrightarrow> x = y"
  shows "find P xs = Some x"
  using assms
proof (induction xs)
  case Nil
  then show ?case by simp
next
  case (Cons a xs)
  show ?case
  proof (cases "P a")
    case True
    with Cons.prems(3) have "x = a" by simp
    with True show ?thesis by simp
  next
    case False
    with Cons.prems(1,2) have "x \<in> set xs" by auto
    moreover have "\<forall>y \<in> set xs. P y \<longrightarrow> x = y" using Cons.prems(3) by simp
    ultimately have "find P xs = Some x" using Cons.IH Cons.prems(2) by blast
    with False show ?thesis by simp
  qed
qed

lemma values_update:
  assumes "distinct (map fst ops)"
  shows "set (map snd (AList.update k v ops)) \<subseteq> insert v (set (map snd (AList.delete k ops)))"
  using assms
proof (induction ops)
  case Nil
  then show ?case by simp
next
  case (Cons p ops)
  show ?case
  proof (cases "fst p = k")
    case True
    with Cons.prems have "k \<notin> fst ` set ops" by auto
    then have "AList.delete k ops = ops" by simp
    with True show ?thesis by (cases p) auto
  next
    case False
    with Cons show ?thesis by (cases p) auto
  qed
qed

lemma optimisticCreate_round_trip:
  assumes c: "create db store newItem fault = (Fulfilled (Some k), db')"
    and tr: "truthy k"
    and d: "distinct (map fst ops)"
    and nm: "\<not> list_ex (matches_item keyField k)
               (getPendingOperations (AList.delete (generateOperationId now rnd) ops))"
  shows "\<exists>ops' st.
      optimisticCreate store keyField now rnd newItem fault (ops, db)
        = (Fulfilled \<lparr>success = True,
             result_item = Some (set_prop (set_prop newItem keyField
                (Str (''temp_'' @ generateOperationId now rnd))) keyField k),
             result_error = None, operationId = generateOperationId now rnd\<rparr>, ops', db')
      \<and> getOptimisticState keyField ops' k = Some st \<and> isConfirmed st \<and> \<not> isPending st
      \<and> getOptimisticState keyField (clearOperation (generateOperationId now rnd) ops') k = None"
proof -
  define opId where "opId = generateOperationId now rnd"
  define confirmedItem where
    "confirmedItem = set_prop (set_prop newItem keyField (Str (''temp_'' @ opId))) keyField k"
  define e where "e = \<lparr>op_id = opId, action = CreateAction, item = confirmedItem,
             originalItem = None, confirmed = True, error = None\<rparr>"
  define ops' where "ops' = AList.update opId e ops"
  have run: "optimisticCreate store keyField now rnd newItem fault (ops, db)
        = (Fulfilled \<lparr>success = True, result_item = Some confirmedItem,
             result_error = None, operationId = opId\<rparr>, ops', db')"
    using c tr
    by (simp add: optimisticCreate_def executeOperation_def Let_def mark_confirmed_def
        optimisticCreate_register_def update_conv' opId_def confirmedItem_def e_def ops'_def)
  have m: "matches_item keyField k e"
    by (simp add: matches_item_def get_prop_set_prop e_def confirmedItem_def)
  have mem: "e \<in> set (getPendingOperations ops')"
  proof -
    have "map_of ops' opId = Some e" by (simp add: update_conv' ops'_def)
    then have "(opId, e) \<in> set ops'" by (rule map_of_SomeD)
    then have "snd (opId, e) \<in> snd ` set ops'" by (rule imageI)
    then show ?thesis by (simp add: getPendingOperations_def)
  qed
  have others: "\<forall>y \<in> set (getPendingOperations ops'). matches_item keyField k y \<longrightarrow> e = y"
  proof (intro ballI impI)
    fix y assume y: "y \<in> set (getPendingOperations ops')" and my: "matches_item keyField k y"
    from y values_update[OF d, of opId e]
    have "e = y \<or> y \<in> set (getPendingOperations (AList.delete opId ops))"
      unfolding getPendingOperations_def ops'_def by blast
    moreover have "y \<notin> set (getPendingOperations (AList.delete opId ops))"
      using nm my unfolding list_ex_iff opId_def by blast
    ultimately show "e = y" by blast
  qed
  have f: "find (matches_item keyField k) (getPendingOperations ops') = Some e"
    using mem m others by (rule find_unique)
  have cl: "clearOperation opId ops' = AList.delete opId ops"
    by (simp add: clearOperation_def delete_update_same ops'_def)
  have n: "find (matches_item keyField k) (getPendingOperations (AList.delete opId ops)) = None"
    using nm unfolding find_None_iff list_ex_iff opId_def by blast
  have s1: "getOptimisticState keyField ops' k
      = Some \<lparr>isPending = False, isError = False, isConfirmed = True, state_error = None,
               state_action = CreateAction\<rparr>"
    by (simp add: getOptimisticState_def f e_def)
  have s2: "getOptimisticState keyField (clearOperation opId ops') k = None"
    by (simp add: getOptimisticState_def cl n)
  have r': "optimisticCreate store keyField now rnd newItem fault (ops, db)
        = (Fulfilled \<lparr>success = True,
             result_item = Some (set_prop (set_prop newItem keyField
                (Str (''temp_'' @ generateOperationId now rnd))) keyField k),
             result_error = None, operationId = generateOperationId now rnd\<rparr>, ops', db')"
    using run unfolding confirmedItem_def opId_def .
  have s2': "getOptimisticState keyField (clearOperation (generateOperationId now rnd) ops') k
      = None"
    using s2 unfolding opId_def .
  let ?st = "\<lparr>isPending = False, isError = False, isConfirmed = True, state_error = None,
               state_action = CreateAction\<rparr>"
  have "isConfirmed ?st \<and> \<not> isPending ?st" by simp
  with r' s1 s2' show ?thesis by blast
qed

section \<open>Evaluation of the examples\<close>

lemma version_unset: "open_version (version_argument None) = Inr 3"
  by code_simp

lemmas engine_defs =
  initDB_def version_unset onupgradeneeded_def createObjectStore_def createIndex_def Keys_def
  objectStore_add_def objectStore_put_def extract_key_def
  evaluate_keyPath_def run_request_def store_record_def generate_key_def
  possibly_update_generator_def violates_unique_def index_key_def delete_record_def
  set_prop_def get_prop_def hasOwn_def own_keys_def resolve_def Let_def

lemmas db_defs = transaction_def commit_def

lemma fresh_users: "transaction fresh_db Users = Inr users0"
  by (simp add: fresh_db_def users0_def engine_defs db_defs)

lemma fresh_db_version: "fresh_db = Some (the fresh_db) \<and> version (the fresh_db) = 3"
  by (simp add: fresh_db_def initDB_def version_unset Let_def resolve_def)

lemma users0_absent: "map_of (records users0) (Num 5) = None"
  by (simp add: users0_def)

lemma users0_empty: "records users0 = []"
  by (simp add: users0_def)

lemma create_alice: "fst (create fresh_db Users alice None) = Fulfilled (Some (Num 1))"
  by (simp add: fresh_db_def alice_def create_def engine_defs db_defs)

lemma create_alice_full: "create fresh_db Users alice None = (Fulfilled (Some (Num 1)), db1)"
  using create_alice by (simp add: db1_def prod_eq_iff)

lemma db1_users: "transaction db1 Users = Inr users1"
  by (simp add: db1_def users1_def alice1_def fresh_db_def alice_def create_def engine_defs db_defs)

lemma users1_alice: "map_of (records users1) (Num 1) = Some alice1"
  by (simp add: users1_def)

lemma create_alice_again: "create db1 Users alice None = (Fulfilled (Some (Num 2)), db2)"
  by (simp add: db2_def prod_eq_iff create_def db1_users users1_def alice_def alice1_def engine_defs)

lemma create_all_twice: "create_all fresh_db Users [alice, alice] = Some ([Num 1, Num 2], db2)"
  by (simp add: create_alice_full create_alice_again)

lemma merge_alice: "update_fields alice1 new_email (own_keys new_email) = alice2"
  by (simp add: alice1_def alice_def new_email_def alice2_def engine_defs)

lemma extract_alice2: "extract_key users1 alice2 = Inr (Some (Num 1))"
  by (simp add: users1_def alice2_def engine_defs)

lemma store_alice2:
  "store_record users1 alice2 (Some (Num 1)) False
     = Inr (Num 1, users1\<lparr>records := [(Num 1, alice2)]\<rparr>)"
  by (simp add: users1_def alice2_def engine_defs)

lemma merge_default: "update_fields alice new_email (own_keys new_email) = alice_al"
  by (simp add: alice_def new_email_def alice_al_def engine_defs)

lemma extract_default: "extract_key users0 alice_al = Inr None"
  by (simp add: users0_def alice_al_def engine_defs)

lemma store_default: "store_record users0 alice_al None False = Inr (Num 1, users_al)"
  by (simp add: users0_def alice_al_def users_al_def alice2_def engine_defs)

lemma add_alice1_request: "objectStore_add users1 alice1 = Inr add_alice1"
  by (simp add: add_alice1_def users1_def alice1_def alice_def objectStore_add_def
      extract_key_def evaluate_keyPath_def)

lemma add_alice1_fails: "run_request add_alice1 None = Inl ConstraintError"
  by (simp add: add_alice1_def users1_def alice1_def alice_def engine_defs)

lemma put_alice2_request:
  "objectStore_put users1
     (update_fields (case map_of (records users1) (Num 1) of None \<Rightarrow> [] | Some r \<Rightarrow> r)
        new_email (own_keys new_email)) = Inr put_alice2"
  by (simp add: users1_alice merge_alice put_alice2_def objectStore_put_def extract_alice2)

lemma put_alice2_fails: "run_request put_alice2 (Some ConstraintError) = Inl ConstraintError"
  by (simp add: run_request_def)

lemma create_quota:
  "create fresh_db Users alice (Some QuotaExceededError) = (Fulfilled None, fresh_db)"
  by (simp add: create_def fresh_users users0_def alice_def engine_defs)



lemma db_link_store: "transaction db_link UserSkills = Inr userSkills1"
  by (simp add: db_link_def userSkills1_def link_def fresh_db_def create_def engine_defs db_defs)

lemma db_link_invariant: "userSkills_invariant db_link"
  by (simp add: userSkills_invariant_def db_link_store unique_pairs_def pairs_def
      userSkills1_def link_def Keys_def index_key_def evaluate_keyPath_def get_prop_def)

lemma link_valid: "is_UserSkill link"
  by (simp add: is_UserSkill_def link_def)

lemma show_nat_17: "show_nat 17 = ''17''"
  by (simp add: show_nat.simps)

lemma show_nat_42: "show_nat 42 = ''42''"
  by (simp add: show_nat.simps)

lemma operationId_17_a: "generateOperationId 17 ''a'' = ''op_17_a''"
  by (simp add: generateOperationId_def show_nat_17)

lemma operationId_42_b: "generateOperationId 42 ''b'' = ''op_42_b''"
  by (simp add: generateOperationId_def show_nat_42)

lemma set_prop_alice: "set_prop alice ''userId'' v = alice @ [(''userId'', v)]"
  by (simp add: alice_def set_prop_def)

lemma set_prop_alice_temp: "set_prop (alice @ [(''userId'', w)]) ''userId'' v = alice @ [(''userId'', v)]"
  by (simp add: alice_def set_prop_def)

lemma after_failed_create_val:
  "after_failed_create =
     ([(''op_17_a'', \<lparr>op_id = ''op_17_a'', action = CreateAction,
         item = alice @ [(''userId'', Str ''temp_op_17_a'')],
         originalItem = None, confirmed = False, error = Some ''Database operation failed''\<rparr>)],
      fresh_db)"
  by (simp add: after_failed_create_def optimisticCreate_def create_quota operationId_17_a Let_def
      executeOperation_def catch_block_def mark_error_def optimisticCreate_register_def
      set_prop_alice)

lemma second_create_val:
  "second_create =
     (Fulfilled \<lparr>success = True, result_item = Some alice1, result_error = None,
                 operationId = ''op_42_b''\<rparr>,
      [(''op_17_a'', \<lparr>op_id = ''op_17_a'', action = CreateAction,
         item = alice @ [(''userId'', Str ''temp_op_17_a'')],
         originalItem = None, confirmed = False, error = Some ''Database operation failed''\<rparr>),
       (''op_42_b'', \<lparr>op_id = ''op_42_b'', action = CreateAction, item = alice1,
         originalItem = None, confirmed = True, error = None\<rparr>)],
      db1)"
  by (simp add: second_create_def after_failed_create_val optimisticCreate_def create_alice_full
      operationId_42_b Let_def executeOperation_def mark_confirmed_def optimisticCreate_register_def
      set_prop_alice set_prop_alice_temp alice1_def)

section \<open>Errors of the engine\<close>

text \<open>
  The version the open request is made for.
\<close>

lemma version_empty: "open_version (version_argument (Some [])) = Inr 3"
  by code_simp

lemma version_examples:
  "open_version (version_argument (Some ''4'')) = Inr 4
   \<and> open_version (version_argument (Some '' 3.7e0 '')) = Inr 3
   \<and> open_version (version_argument (Some ''0x10'')) = Inr 16
   \<and> open_version (version_argument (Some ''9007199254740991'')) = Inr 9007199254740991
   \<and> open_version (version_argument (Some ''0.99999999999999999999'')) = Inr 1"
  by code_simp

lemma version_errors:
  "open_version (version_argument (Some ''0'')) = Inl TypeError
   \<and> open_version (version_argument (Some ''three'')) = Inl TypeError
   \<and> open_version (version_argument (Some ''-1'')) = Inl TypeError
   \<and> open_version (version_argument (Some ''0.5'')) = Inl TypeError
   \<and> open_version (version_argument (Some ''9007199254740992'')) = Inl TypeError
   \<and> open_version (version_argument (Some ''Infinity'')) = Inl TypeError
   \<and> open_version (version_argument (Some '' '')) = Inl TypeError"
  by code_simp

text \<open>
  Error events. An error event at a request of an operation, which then bubbles to the
  transaction, resolves the failure value and leaves the database as it was; in
  \<open>getAll\<close> the first error event decides, at the request or at the transaction,
  whatever the engine sends afterwards.
\<close>

lemma getAll_settled:
  "promise st = Fulfilled x \<Longrightarrow> promise (fold getAll_handler evs st) = Fulfilled x"
proof (induction evs arbitrary: st)
  case Nil
  then show ?case by simp
next
  case (Cons ev evs)
  have "promise (getAll_handler ev st) = Fulfilled x"
    using Cons.prems by (cases ev) (simp_all add: resolve_def split: option.splits)
  then show ?case using Cons.IH by simp
qed

lemma getAll_first_error:
  assumes "ev = RequestError e \<or> ev = TransactionError e"
  shows "promise (getAll_run (map (\<lambda>v. CursorSuccess (Some v)) vs @ ev # evs)) = Fulfilled None"
proof -
  have pre: "fold getAll_handler (map (\<lambda>v. CursorSuccess (Some v)) vs) st
      = st\<lparr>allRetrievedData := allRetrievedData st @ vs\<rparr>" for st
    by (induction vs arbitrary: st) auto
  have "promise (getAll_handler ev
           (\<lparr>promise = Pending, allRetrievedData = []\<rparr>\<lparr>allRetrievedData := [] @ vs\<rparr>))
      = Fulfilled None"
    using assms by (auto simp: resolve_def)
  then show ?thesis
    by (simp add: getAll_run_def pre getAll_settled)
qed

lemma error_events_resolve_sentinels:
  "(open_version (version_argument envVersion) = Inr v \<longrightarrow>
        initDB existing envVersion (Some e) = (Fulfilled False, None)
      \<and> (existing = Some d \<and> v < version d \<longrightarrow>
            initDB existing envVersion None = (Fulfilled False, None)))
   \<and> (transaction db storeName = Inr store \<longrightarrow>
        (objectStore_add store data = Inr addRequest \<and> run_request addRequest fault = Inl e
           \<longrightarrow> create db storeName data fault = (Fulfilled None, db))
      \<and> get db storeName ident (Some e) = Fulfilled None
      \<and> getAll db storeName (Some (n, e)) = Fulfilled None
      \<and> update db storeName ident newData createDefault (Some e) putFault = (Fulfilled None, db)
      \<and> (objectStore_put store
            (update_fields
               (case map_of (records store) (Num ident) of None \<Rightarrow> createDefault () | Some r \<Rightarrow> r)
               newData (own_keys newData)) = Inr updateRequest
          \<and> run_request updateRequest putFault = Inl e
           \<longrightarrow> update db storeName ident newData createDefault None putFault = (Fulfilled None, db))
      \<and> remove db storeName ident (Some e) = (Fulfilled False, db)
      \<and> clearStore db storeName (Some e) = (Fulfilled False, db))"
  by (auto simp: initDB_def create_def get_def getAll_fault update_def remove_def clearStore_def
      resolve_def Let_def)

lemma error_events_example:
  "initDB fresh_db (Some ''2'') (Some ConstraintError) = (Fulfilled False, None)
   \<and> initDB fresh_db (Some ''2'') None = (Fulfilled False, None)
   \<and> create db1 Users alice1 None = (Fulfilled None, db1)
   \<and> get db1 Users 1 (Some ConstraintError) = Fulfilled None
   \<and> getAll db1 Users (Some (1, ConstraintError)) = Fulfilled None
   \<and> update db1 Users 1 new_email (\<lambda>u. []) (Some ConstraintError) (Some ConstraintError)
        = (Fulfilled None, db1)
   \<and> update db1 Users 1 new_email (\<lambda>u. []) None (Some ConstraintError) = (Fulfilled None, db1)
   \<and> remove db1 Users 1 (Some ConstraintError) = (Fulfilled False, db1)
   \<and> clearStore db1 Users (Some ConstraintError) = (Fulfilled False, db1)"
proof -
  have v: "open_version (version_argument (Some ''2'')) = Inr 2"
    by code_simp
  have d: "fresh_db = Some (the fresh_db) \<and> (2::nat) < version (the fresh_db)"
    using fresh_db_version by simp
  show ?thesis
    using error_events_resolve_sentinels[where existing = fresh_db and envVersion = "Some ''2''"
        and e = ConstraintError and d = "the fresh_db" and v = 2 and db = db1
        and storeName = Users and store = users1 and data = alice1 and addRequest = add_alice1
        and fault = None and ident = 1 and n = 1 and newData = new_email
        and createDefault = "\<lambda>u. []" and putFault = "Some ConstraintError"
        and updateRequest = put_alice2]
      v d db1_users add_alice1_request add_alice1_fails put_alice2_request put_alice2_fails
    by simp
qed

text \<open>
  Exceptions. An exception thrown while the promise is being set up rejects it:
  \<^verbatim>\<open>_db\<close> is still undefined, \<^verbatim>\<open>store.add\<close> is given a record whose key field holds
  \<^verbatim>\<open>null\<close>, or \<^verbatim>\<open>open\<close> is given a version that is not a positive integer. Inside the
  success handler of \<open>update\<close> the exception leaves the promise pending. Behind the
  context a rejection becomes \<^verbatim>\<open>null\<close>.
\<close>

lemma initDB_zero_version: "initDB existing (Some ''0'') fault = (Rejected TypeError, None)"
proof -
  have "open_version (version_argument (Some ''0'')) = Inl TypeError"
    by code_simp
  then show ?thesis
    by (simp add: initDB_def)
qed

lemma initDB_not_a_number: "initDB existing (Some ''three'') fault = (Rejected TypeError, None)"
proof -
  have "open_version (version_argument (Some ''three'')) = Inl TypeError"
    by code_simp
  then show ?thesis
    by (simp add: initDB_def)
qed

lemma create_before_initDB: "create None storeName data fault = (Rejected TypeError, None)"
  by (simp add: create_def transaction_def)

lemma create_invalid_key:
  "create fresh_db Users [(''userId'', Null)] fault = (Rejected DataError, fresh_db)"
  by (simp add: create_def fresh_users users0_def objectStore_add_def extract_key_def
      evaluate_keyPath_def)

lemma update_invalid_key:
  "update db1 Users 1 [(''userId'', Null)] createDefault None putFault = (Pending, db1)"
  by (simp add: update_def db1_users users1_def alice1_def alice_def engine_defs)

section \<open>The claims\<close>

text \<open>
  C1, as amended. When \<open>update\<close> finds a record under the id and the engine stores the
  merged record, \<open>update\<close> resolves the merged record and the store holds it: each field
  the existing record owns has the value of the partial-update argument when that
  argument has the field, and its old value otherwise (the identifier too); the record
  has no other field. A field of the argument that the existing record does not own is
  not written.
\<close>

theorem update_overwrites_owned_fields:
  assumes "transaction db storeName = Inr store"
    and "map_of (records store) (Num ident) = Some existing"
    and "extract_key store (update_fields existing partial (own_keys partial)) = Inr key"
    and "store_record store (update_fields existing partial (own_keys partial)) key False
           = Inr (k, store')"
  shows "\<exists>merged stored.
           update db storeName ident partial factory None None
             = (Fulfilled (Some merged), commit db storeName store')
         \<and> (\<forall>f. map_of merged f =
               (if hasOwn existing f \<and> hasOwn partial f then map_of partial f
                else map_of existing f))
         \<and> map_of (records store') k = Some stored
         \<and> map_of stored = (map_of merged)(keyPath store \<mapsto> k)"
proof -
  have b: "existing =
      (case map_of (records store) (Num ident) of None \<Rightarrow> factory () | Some v \<Rightarrow> v)"
    using assms(2) by simp
  show ?thesis using update_stores_merged[where factory = factory, OF assms(1) b assms(3,4)] .
qed

theorem update_overwrites_owned_fields_witness:
  "transaction db1 Users = Inr users1
   \<and> map_of (records users1) (Num 1) = Some alice1
   \<and> extract_key users1 (update_fields alice1 new_email (own_keys new_email)) = Inr (Some (Num 1))
   \<and> store_record users1 (update_fields alice1 new_email (own_keys new_email)) (Some (Num 1)) False
        = Inr (Num 1, users1\<lparr>records := [(Num 1, alice2)]\<rparr>)
   \<and> (\<exists>merged stored.
         update db1 Users 1 new_email (\<lambda>u. []) None None
           = (Fulfilled (Some merged), commit db1 Users (users1\<lparr>records := [(Num 1, alice2)]\<rparr>))
       \<and> (\<forall>f. map_of merged f =
             (if hasOwn alice1 f \<and> hasOwn new_email f then map_of new_email f
              else map_of alice1 f))
       \<and> map_of (records (users1\<lparr>records := [(Num 1, alice2)]\<rparr>)) (Num 1) = Some stored
       \<and> map_of stored = (map_of merged)(keyPath users1 \<mapsto> Num 1))"
proof -
  have e: "extract_key users1 (update_fields alice1 new_email (own_keys new_email))
             = Inr (Some (Num 1))"
    by (simp add: merge_alice extract_alice2)
  have s: "store_record users1 (update_fields alice1 new_email (own_keys new_email))
             (Some (Num 1)) False
        = Inr (Num 1, users1\<lparr>records := [(Num 1, alice2)]\<rparr>)"
    by (simp add: merge_alice store_alice2)
  show ?thesis
    using update_overwrites_owned_fields[OF db1_users users1_alice e s, of "\<lambda>u. []"]
      db1_users users1_alice e s by simp
qed

text \<open>
  C1 as stated fails where the partial-update argument has a field the existing record
  does not own: the record obtained by overwriting the fields of \<^verbatim>\<open>{nickname: "Al"}\<close>
  onto the stored user has a \<^verbatim>\<open>nickname\<close>; the record \<open>update\<close> resolves, which is also
  the record the store holds afterwards, has none.
\<close>

theorem update_overwrite_counterexample:
  "transaction db1 Users = Inr users1
   \<and> map_of (records users1) (Num 1) = Some alice1
   \<and> fst (update db1 Users 1 nickname (\<lambda>u. []) None None) = Fulfilled (Some alice1)
   \<and> transaction (snd (update db1 Users 1 nickname (\<lambda>u. []) None None)) Users = Inr users1
   \<and> map_of alice1 ''nickname'' = None
   \<and> overwritten alice1 nickname ''nickname'' = Some (Str ''Al'')"
  by (simp add: db1_users transaction_commit[OF db1_users] update_def users1_def alice1_def
      alice_def nickname_def overwritten_def engine_defs)

text \<open>
  C2. The statement fails on the code. The predicate of the lookup accepts every entry
  whose snapshot still carries its own temporary id, whatever \<open>recordId\<close> is: with one
  create in flight, \<open>getOptimisticState\<close> for the unrelated id \<open>42\<close> reports that entry, as
  pending, although the snapshot identifier of the entry is not \<open>42\<close>.
\<close>

theorem getOptimisticState_unrelated_id:
  "getPendingOperations in_flight
     = [\<lparr>op_id = ''op_17_a'', action = CreateAction,
         item = alice @ [(''userId'', Str ''temp_op_17_a'')],
         originalItem = None, confirmed = False, error = None\<rparr>]
   \<and> get_prop (alice @ [(''userId'', Str ''temp_op_17_a'')]) ''userId'' \<noteq> Num 42
   \<and> getOptimisticState ''userId'' in_flight (Num 42)
       = Some \<lparr>isPending = True, isError = False, isConfirmed = False, state_error = None,
               state_action = CreateAction\<rparr>"
  by (simp add: in_flight_def operationId_17_a optimisticCreate_register_def getPendingOperations_def
      getOptimisticState_def matches_item_def alice_def set_prop_def get_prop_def)

text \<open>
  C3, as amended. When \<open>update\<close> finds no record under the id, it does not fail for that
  reason: it takes the record \<open>factory ()\<close>, overwrites those of its fields that the
  partial-update argument has, and, when the engine stores that record, resolves it; the
  store then holds it under the key the engine reports, with that key at the key field.
  A field of the argument that \<open>factory ()\<close> does not own is not written.
\<close>

theorem update_upsert_from_factory:
  assumes "transaction db storeName = Inr store"
    and "map_of (records store) (Num ident) = None"
    and "extract_key store (update_fields (factory ()) partial (own_keys partial)) = Inr key"
    and "store_record store (update_fields (factory ()) partial (own_keys partial)) key False
           = Inr (k, store')"
  shows "\<exists>merged stored.
           update db storeName ident partial factory None None
             = (Fulfilled (Some merged), commit db storeName store')
         \<and> (\<forall>f. map_of merged f =
               (if hasOwn (factory ()) f \<and> hasOwn partial f then map_of partial f
                else map_of (factory ()) f))
         \<and> map_of (records store') k = Some stored
         \<and> map_of stored = (map_of merged)(keyPath store \<mapsto> k)"
proof -
  have b: "factory () =
      (case map_of (records store) (Num ident) of None \<Rightarrow> factory () | Some v \<Rightarrow> v)"
    using assms(2) by simp
  show ?thesis
    using update_stores_merged[where factory = factory and base = "factory ()",
        OF assms(1) b assms(3,4)] .
qed

theorem update_upsert_from_factory_witness:
  "transaction fresh_db Users = Inr users0
   \<and> map_of (records users0) (Num 5) = None
   \<and> extract_key users0 (update_fields alice new_email (own_keys new_email)) = Inr None
   \<and> store_record users0 (update_fields alice new_email (own_keys new_email)) None False
        = Inr (Num 1, users_al)
   \<and> (\<exists>merged stored.
         update fresh_db Users 5 new_email (\<lambda>u. alice) None None
           = (Fulfilled (Some merged), commit fresh_db Users users_al)
       \<and> (\<forall>f. map_of merged f =
             (if hasOwn alice f \<and> hasOwn new_email f then map_of new_email f
              else map_of alice f))
       \<and> map_of (records users_al) (Num 1) = Some stored
       \<and> map_of stored = (map_of merged)(keyPath users0 \<mapsto> Num 1))"
proof -
  have e: "extract_key users0 (update_fields ((\<lambda>u. alice) ()) new_email (own_keys new_email)) = Inr None"
    by (simp add: merge_default extract_default)
  have s: "store_record users0 (update_fields ((\<lambda>u. alice) ()) new_email (own_keys new_email)) None False
        = Inr (Num 1, users_al)"
    by (simp add: merge_default store_default)
  show ?thesis
    using update_upsert_from_factory[where factory = "\<lambda>u. alice", OF fresh_users users0_absent e s]
      fresh_users users0_absent e s by simp
qed

text \<open>
  C3 as stated fails where the partial-update argument has a field that \<open>factory ()\<close>
  does not own: applying \<^verbatim>\<open>{nickname: "Al"}\<close> to the default record gives a record with
  a \<^verbatim>\<open>nickname\<close>; the record \<open>update\<close> resolves and the record it stores have none.
\<close>

theorem update_upsert_counterexample:
  "transaction fresh_db Users = Inr users0
   \<and> map_of (records users0) (Num 5) = None
   \<and> fst (update fresh_db Users 5 nickname (\<lambda>u. alice) None None) = Fulfilled (Some alice)
   \<and> transaction (snd (update fresh_db Users 5 nickname (\<lambda>u. alice) None None)) Users
        = Inr users1
   \<and> map_of alice ''nickname'' = None
   \<and> map_of alice1 ''nickname'' = None
   \<and> overwritten alice nickname ''nickname'' = Some (Str ''Al'')"
  by (simp add: fresh_users transaction_commit[OF fresh_users] update_def users0_def users1_def
      alice1_def alice_def nickname_def overwritten_def engine_defs)

text \<open>
  C4. When \<open>create\<close> resolves the numeric id \<open>n\<close>, a following \<open>get\<close> of \<open>n\<close> in the same
  collection resolves a record that has every field of the created record and holds
  \<open>n\<close> at the key field; and \<open>get\<close> of an id the collection does not hold resolves
  \<^verbatim>\<open>null\<close>.
\<close>

theorem create_then_get:
  "(create db storeName r fault = (Fulfilled (Some (Num n)), db') \<longrightarrow>
      (\<exists>store stored. transaction db storeName = Inr store
         \<and> get db' storeName n None = Fulfilled (Some stored)
         \<and> map_of stored = (map_of r)(keyPath store \<mapsto> Num n)))
   \<and> (transaction db storeName = Inr store0 \<and> map_of (records store0) (Num m) = None \<longrightarrow>
        get db storeName m None = Fulfilled None)"
proof (intro conjI impI)
  assume a: "create db storeName r fault = (Fulfilled (Some (Num n)), db')"
  from create_success[OF a] obtain store key s' where
    t: "transaction db storeName = Inr store" and
    e: "extract_key store r = Inr key" and
    s: "store_record store r key True = Inr (Num n, s')" and
    d: "db' = commit db storeName s'" by blast
  from stored_at_key[OF e s] obtain stored where
    st: "map_of (records s') (Num n) = Some stored"
        "map_of stored = (map_of r)(keyPath store \<mapsto> Num n)" by blast
  have "transaction db' storeName = Inr s'"
    using t d by (simp add: transaction_commit)
  with st have "get db' storeName n None = Fulfilled (Some stored)"
    by (simp add: get_def resolve_def)
  with t st show "\<exists>store stored. transaction db storeName = Inr store
         \<and> get db' storeName n None = Fulfilled (Some stored)
         \<and> map_of stored = (map_of r)(keyPath store \<mapsto> Num n)" by blast
next
  assume "transaction db storeName = Inr store0 \<and> map_of (records store0) (Num m) = None"
  then show "get db storeName m None = Fulfilled None"
    by (simp add: get_def resolve_def)
qed

theorem create_then_get_witness:
  "create fresh_db Users alice None
     = (Fulfilled (Some (Num 1)), snd (create fresh_db Users alice None))
   \<and> (\<exists>store stored. transaction fresh_db Users = Inr store
         \<and> get (snd (create fresh_db Users alice None)) Users 1 None = Fulfilled (Some stored)
         \<and> map_of stored = (map_of alice)(keyPath store \<mapsto> Num 1))
   \<and> transaction fresh_db Users = Inr users0
   \<and> map_of (records users0) (Num 7) = None
   \<and> get fresh_db Users 7 None = Fulfilled None"
  using create_then_get[of fresh_db Users alice None 1 "snd (create fresh_db Users alice None)"
      users0 7]
    create_alice fresh_users
  by (simp add: prod_eq_iff users0_def)

text \<open>
  C5. After the records \<open>rs\<close> have been created one after the other, each create
  succeeding, in a collection that held no record, \<open>getAll\<close> resolves a list of as many
  records as were created. Their ids are pairwise distinct, they are the ids the creates
  returned, and they come in the order of the store, ascending by key, which is the same
  at every call. The promise is still pending after every event before the last (each
  cursor success, the final null cursor included) and resolves on the \<^verbatim>\<open>complete\<close>
  event of the transaction only.
\<close>

theorem getAll_after_creates:
  assumes "transaction db storeName = Inr store"
    and "records store = []"
    and "create_all db storeName rs = Some (ids, db')"
  shows "\<exists>store' xs. transaction db' storeName = Inr store'
      \<and> getAll db' storeName None = Fulfilled (Some xs)
      \<and> length xs = length rs
      \<and> distinct (map (\<lambda>x. get_prop x (keyPath store)) xs)
      \<and> set (map (\<lambda>x. get_prop x (keyPath store)) xs) = set ids
      \<and> sorted_wrt key_less (map (\<lambda>x. get_prop x (keyPath store)) xs)
      \<and> (\<forall>n \<le> Suc (length xs).
            promise (getAll_run (take n (openCursor_events store' None))) = Pending)
      \<and> promise (getAll_run (openCursor_events store' None)) = Fulfilled (Some xs)"
proof -
  have ok: "store_ok store" using assms(2) by (simp add: store_ok_def)
  from create_all_ok[OF assms(3,1) ok] assms(2) obtain s' where
    t: "transaction db' storeName = Inr s'" and ok': "store_ok s'" and
    kp: "keyPath s' = keyPath store" and
    len: "length (records s') = length rs" and
    keys: "fst ` set (records s') = set ids" by auto
  let ?xs = "map snd (records s')"
  have g: "getAll db' storeName None = Fulfilled (Some ?xs)"
    using t by (rule getAll_no_fault)
  have idm: "map (\<lambda>x. get_prop x (keyPath store)) ?xs = map fst (records s')"
    using ids_of_records[OF ok'] kp by simp
  have srt: "sorted_wrt key_less (map fst (records s'))"
    using ok' by (simp add: store_ok_def)
  have pend: "\<forall>n \<le> Suc (length ?xs).
      promise (getAll_run (take n (openCursor_events s' None))) = Pending"
    by (simp add: getAll_pending_prefix)
  have fin: "promise (getAll_run (openCursor_events s' None)) = Fulfilled (Some ?xs)"
    using g t by (simp add: getAll_def)
  have "length ?xs = length rs" using len by simp
  moreover have "distinct (map (\<lambda>x. get_prop x (keyPath store)) ?xs)"
    unfolding idm using srt by (rule sorted_keys_distinct)
  moreover have "set (map (\<lambda>x. get_prop x (keyPath store)) ?xs) = set ids"
    unfolding idm using keys by simp
  moreover have "sorted_wrt key_less (map (\<lambda>x. get_prop x (keyPath store)) ?xs)"
    unfolding idm using srt .
  ultimately show ?thesis using t g pend fin by blast
qed

theorem getAll_after_creates_witness:
  "transaction fresh_db Users = Inr users0
   \<and> records users0 = []
   \<and> create_all fresh_db Users [alice, alice] = Some ([Num 1, Num 2], db2)
   \<and> (\<exists>store' xs. transaction db2 Users = Inr store'
      \<and> getAll db2 Users None = Fulfilled (Some xs)
      \<and> length xs = length [alice, alice]
      \<and> distinct (map (\<lambda>x. get_prop x (keyPath users0)) xs)
      \<and> set (map (\<lambda>x. get_prop x (keyPath users0)) xs) = set [Num 1, Num 2]
      \<and> sorted_wrt key_less (map (\<lambda>x. get_prop x (keyPath users0)) xs)
      \<and> (\<forall>n \<le> Suc (length xs).
            promise (getAll_run (take n (openCursor_events store' None))) = Pending)
      \<and> promise (getAll_run (openCursor_events store' None)) = Fulfilled (Some xs))"
  using getAll_after_creates[OF fresh_users users0_empty create_all_twice]
    fresh_users users0_empty create_all_twice
  by simp

text \<open>
  C6. No two records of the \<^verbatim>\<open>userSkills\<close> collection have the same
  (\<^verbatim>\<open>userId\<close>, \<^verbatim>\<open>skillId\<close>) pair: \<open>initDB\<close> establishes \<open>userSkills_invariant\<close> in a
  browser without a database, and \<open>initDB\<close>, \<open>create\<close>, \<open>update\<close>, \<open>remove\<close> and
  \<open>clearStore\<close> preserve it, on every collection, for every argument and every fault.
  Under it, creating a well-typed \<^verbatim>\<open>UserSkill\<close> whose pair is the pair of a record of
  the store resolves \<^verbatim>\<open>null\<close> and leaves the database as it was.
\<close>

theorem userSkills_pair_unique:
  "userSkills_invariant (snd (initDB None envVersion fault))
   \<and> (userSkills_invariant db \<longrightarrow>
         userSkills_invariant (snd (initDB db envVersion fault))
       \<and> userSkills_invariant (snd (create db storeName data fault))
       \<and> userSkills_invariant
            (snd (update db storeName ident newData createDefault getFault putFault))
       \<and> userSkills_invariant (snd (remove db storeName ident fault))
       \<and> userSkills_invariant (snd (clearStore db storeName fault))
       \<and> (transaction db UserSkills = Inr store \<and> (k, r) \<in> set (records store)
            \<and> is_UserSkill second
            \<and> get_prop r ''userId'' = get_prop second ''userId''
            \<and> get_prop r ''skillId'' = get_prop second ''skillId''
          \<longrightarrow> create db UserSkills second fault = (Fulfilled None, db)))"
proof -
  have "userSkills_invariant None"
    by (simp add: userSkills_invariant_def transaction_def)
  then have "userSkills_invariant (snd (initDB None envVersion fault))"
    by (rule initDB_invariant)
  then show ?thesis
    by (auto intro: initDB_invariant create_invariant update_invariant remove_invariant
        clearStore_invariant duplicate_pair_rejected)
qed

theorem userSkills_pair_unique_witness:
  "userSkills_invariant db_link
   \<and> transaction db_link UserSkills = Inr userSkills1
   \<and> (Num 1, link @ [(''userSkillId'', Num 1)]) \<in> set (records userSkills1)
   \<and> is_UserSkill link
   \<and> get_prop (link @ [(''userSkillId'', Num 1)]) ''userId'' = get_prop link ''userId''
   \<and> get_prop (link @ [(''userSkillId'', Num 1)]) ''skillId'' = get_prop link ''skillId''
   \<and> create db_link UserSkills link None = (Fulfilled None, db_link)
   \<and> userSkills_invariant (snd (create db_link UserSkills link None))
   \<and> userSkills_invariant (snd (remove db_link UserSkills 1 None))
   \<and> userSkills_invariant (snd (initDB None None None))"
proof -
  have m: "(Num 1, link @ [(''userSkillId'', Num 1)]) \<in> set (records userSkills1)"
    by (simp add: userSkills1_def)
  have p: "get_prop (link @ [(''userSkillId'', Num 1)]) ''userId'' = get_prop link ''userId''"
    "get_prop (link @ [(''userSkillId'', Num 1)]) ''skillId'' = get_prop link ''skillId''"
    by (simp_all add: link_def get_prop_def)
  show ?thesis
    using userSkills_pair_unique[of None None db_link UserSkills link 1 link "\<lambda>u. link" None None
        userSkills1 "Num 1" "link @ [(''userSkillId'', Num 1)]" link]
      db_link_invariant db_link_store m p link_valid
    by simp
qed

text \<open>
  C7. The statement fails on the code. The handlers of an operation see error events
  only. An exception that the engine throws when the operation calls it escapes them: a
  record whose key field holds \<^verbatim>\<open>null\<close> makes \<^verbatim>\<open>store.add\<close> throw DataError in the
  executor, and the promise of \<open>create\<close> is rejected instead of resolving \<^verbatim>\<open>null\<close>;
  so is every promise while \<^verbatim>\<open>_db\<close> is undefined, and the promise of \<open>initDB\<close> for the
  version \<^verbatim>\<open>'0'\<close>. In \<open>update\<close> the exception of \<^verbatim>\<open>store.put\<close> is thrown inside the
  success handler of the get request, and the promise never settles.
\<close>

theorem storage_exceptions_escape:
  "create fresh_db Users [(''userId'', Null)] None = (Rejected DataError, fresh_db)
   \<and> create None Users alice None = (Rejected TypeError, None)
   \<and> update db1 Users 1 [(''userId'', Null)] (\<lambda>u. alice) None None = (Pending, db1)
   \<and> initDB None (Some ''0'') None = (Rejected TypeError, None)"
  by (simp add: create_invalid_key create_before_initDB update_invalid_key initDB_zero_version)

text \<open>
  C8. The statement fails on the code once the map holds an entry that still carries its
  temporary id. After a create that failed (its entry stays in the map), a second
  \<open>optimisticCreate\<close> registers its entry under a temporary id, succeeds with the real id
  \<open>1\<close> and confirms the entry; \<open>getOptimisticState\<close> for \<open>1\<close> finds the entry of the failed
  create first and reports it, not confirmed, and keeps reporting it after
  \<open>clearOperation\<close> of the second operation.
\<close>

theorem optimisticCreate_after_failed_create:
  "fst second_create
     = Fulfilled \<lparr>success = True, result_item = Some alice1, result_error = None,
                  operationId = ''op_42_b''\<rparr>
   \<and> get_prop alice1 ''userId'' = Num 1
   \<and> getOptimisticState ''userId'' (fst (snd second_create)) (Num 1)
       = Some \<lparr>isPending = False, isError = True, isConfirmed = False,
               state_error = Some ''Database operation failed'', state_action = CreateAction\<rparr>
   \<and> getOptimisticState ''userId'' (clearOperation ''op_42_b'' (fst (snd second_create))) (Num 1)
       = Some \<lparr>isPending = False, isError = True, isConfirmed = False,
               state_error = Some ''Database operation failed'', state_action = CreateAction\<rparr>"
  by (simp add: second_create_val getOptimisticState_def getPendingOperations_def
      matches_item_def clearOperation_def alice_def alice1_def get_prop_def)



text \<open>
  C10, as amended. \<open>update\<close> writes only those keys of the partial-update argument that
  the existing record (the record \<open>factory ()\<close> when none exists) already owns: the record
  it resolves differs from that record only at keys both own. A key of the argument that
  the record does not own is in the resolved record not at all, and in the stored record
  only when it is the key path of the collection, where the engine has written the key
  it generated.
\<close>

theorem update_drops_unowned_keys:
  assumes t: "transaction db storeName = Inr store"
    and b: "base = (case map_of (records store) (Num ident) of None \<Rightarrow> factory () | Some v \<Rightarrow> v)"
    and u: "update db storeName ident partial factory getFault putFault
              = (Fulfilled (Some result), db')"
    and p: "hasOwn partial f" and n: "\<not> hasOwn base f"
  shows "\<not> hasOwn result f
       \<and> (\<forall>g. map_of result g \<noteq> map_of base g \<longrightarrow> hasOwn base g \<and> hasOwn partial g)
       \<and> (\<exists>store' k stored. transaction db' storeName = Inr store'
             \<and> map_of (records store') k = Some stored
             \<and> map_of stored = (map_of result)(keyPath store \<mapsto> k)
             \<and> (hasOwn stored f \<longleftrightarrow> f = keyPath store)
             \<and> (f = keyPath store \<longrightarrow> k = Num (keyGenerator store)))"
proof -
  from update_success[OF u] t b obtain key k s' where
    r: "result = update_fields base partial (own_keys partial)" and
    e: "extract_key store result = Inr key" and
    s: "store_record store result key False = Inr (k, s')" and
    d: "db' = commit db storeName s'" by auto
  have h: "\<not> hasOwn result f" using n r by (simp add: hasOwn_update_fields)
  have w: "\<forall>g. map_of result g \<noteq> map_of base g \<longrightarrow> hasOwn base g \<and> hasOwn partial g"
    using r by (auto simp: map_of_merged)
  from stored_at_key[OF e s] obtain stored where
    st: "map_of (records s') k = Some stored"
        "map_of stored = (map_of result)(keyPath store \<mapsto> k)" by blast
  have tr: "transaction db' storeName = Inr s'" using t d by (simp add: transaction_commit)
  have own: "hasOwn stored f \<longleftrightarrow> f = keyPath store"
    using st(2) h by (auto simp: hasOwn_def)
  have gen: "f = keyPath store \<longrightarrow> k = Num (keyGenerator store)"
  proof
    assume fk: "f = keyPath store"
    with h have "map_of result (keyPath store) = None" by (simp add: hasOwn_def)
    with e have "key = None"
      by (auto simp: extract_key_def evaluate_keyPath_def split: if_splits)
    then show "k = Num (keyGenerator store)" using store_record_success(5)[OF s] by simp
  qed
  from h w tr st own gen show ?thesis by blast
qed

theorem update_drops_unowned_keys_witness:
  "transaction fresh_db Users = Inr users0
   \<and> alice = (case map_of (records users0) (Num 5) of None \<Rightarrow> (\<lambda>u. alice) () | Some v \<Rightarrow> v)
   \<and> update fresh_db Users 5 seven (\<lambda>u. alice) None None
        = (Fulfilled (Some alice), commit fresh_db Users users1)
   \<and> hasOwn seven ''userId'' \<and> \<not> hasOwn alice ''userId''
   \<and> \<not> hasOwn alice ''userId''
   \<and> (\<exists>store' k stored. transaction (commit fresh_db Users users1) Users = Inr store'
         \<and> map_of (records store') k = Some stored
         \<and> map_of stored = (map_of alice)(keyPath users0 \<mapsto> k)
         \<and> k = Num (keyGenerator users0))"
proof -
  have b: "alice = (case map_of (records users0) (Num 5) of None \<Rightarrow> (\<lambda>u. alice) () | Some v \<Rightarrow> v)"
    by (simp add: users0_def)
  have u: "update fresh_db Users 5 seven (\<lambda>u. alice) None None
        = (Fulfilled (Some alice), commit fresh_db Users users1)"
    by (simp add: fresh_users update_def users0_def users1_def
      alice1_def alice_def seven_def engine_defs)
  have p: "hasOwn seven ''userId''" by (simp add: seven_def hasOwn_def)
  have n: "\<not> hasOwn alice ''userId''" by (simp add: alice_def hasOwn_def)
  have kp: "keyPath users0 = ''userId''" by (simp add: users0_def)
  show ?thesis
    using update_drops_unowned_keys[where factory = "\<lambda>u. alice", OF fresh_users b u p n]
      fresh_users b u p n kp by auto
qed

text \<open>
  C10 as stated fails for the key path: \<^verbatim>\<open>userId\<close> is in the partial-update argument
  and not in the default record, \<open>update\<close> does not write it, and the stored record owns
  it all the same, with the generated key \<open>1\<close>.
\<close>

theorem update_drops_unowned_keys_counterexample:
  "transaction fresh_db Users = Inr users0
   \<and> map_of (records users0) (Num 5) = None
   \<and> hasOwn seven ''userId'' \<and> \<not> hasOwn alice ''userId''
   \<and> fst (update fresh_db Users 5 seven (\<lambda>u. alice) None None) = Fulfilled (Some alice)
   \<and> transaction (snd (update fresh_db Users 5 seven (\<lambda>u. alice) None None)) Users = Inr users1
   \<and> records users1 = [(Num 1, alice1)]
   \<and> hasOwn alice1 ''userId''"
  by (simp add: fresh_users transaction_commit[OF fresh_users] update_def users0_def users1_def
      alice1_def alice_def seven_def engine_defs)

end
